theory Spec2Isabelle
  imports Complex_Main "HOL-Library.Word"
begin

section \<open>JavaScript values used by the chat front end\<close>

text \<open>
  A JavaScript string is a sequence of UTF-16 code units. \<open>js\<close> turns an ASCII literal
  into such a string; code units beyond ASCII are written as numbers.
\<close>

type_synonym jschar = "16 word"
type_synonym jsstring = "jschar list"

definition js :: "string \<Rightarrow> jsstring" where
  "js s = map (\<lambda>c. word_of_nat (of_char c)) s"

text \<open>The WhiteSpace and LineTerminator code units that \<open>String.prototype.trim\<close> strips.\<close>

definition isWhiteSpace :: "jschar \<Rightarrow> bool" where
  "isWhiteSpace c \<longleftrightarrow>
     c \<in> {0x9, 0xA, 0xB, 0xC, 0xD, 0x20, 0xA0, 0x1680, 0x2028, 0x2029, 0x202F, 0x205F,
          0x3000, 0xFEFF}
     \<or> (0x2000 \<le> c \<and> c \<le> 0x200A)"

definition trim :: "jsstring \<Rightarrow> jsstring" where
  "trim s = rev (dropWhile isWhiteSpace (rev (dropWhile isWhiteSpace s)))"

text \<open>\<open>s.includes(t)\<close>: \<open>t\<close> occurs in \<open>s\<close> as a contiguous substring.\<close>

fun str_includes :: "jsstring \<Rightarrow> jsstring \<Rightarrow> bool" where
  "str_includes [] t = (t = [])"
| "str_includes (c # cs) t = (take (length t) (c # cs) = t \<or> str_includes cs t)"

text \<open>The decimal digits of a number, as a template literal prints \<open>response.status\<close>.\<close>

fun decimal :: "nat \<Rightarrow> jsstring" where
  "decimal n =
     (if n < 10 then [word_of_nat (48 + n)]
      else decimal (n div 10) @ [word_of_nat (48 + n mod 10)])"

declare decimal.simps [simp del]

text \<open>
  The values \<open>JSON.parse\<close> and \<open>response.json()\<close> produce, and \<open>undefined\<close>. A number
  is a finite double, hence a rational. An object is the list of its own properties.
\<close>

datatype jsval =
    JUndefined
  | JNull
  | JBool bool
  | JNum rat
  | JStr jsstring
  | JArr "jsval list"
  | JObj "(jsstring \<times> jsval) list"

text \<open>ToBoolean, as \<open>if (v)\<close>, \<open>!v\<close>, \<open>v && w\<close> and \<open>v || w\<close> apply it.\<close>

fun truthy :: "jsval \<Rightarrow> bool" where
  "truthy JUndefined = False"
| "truthy JNull = False"
| "truthy (JBool b) = b"
| "truthy (JNum n) = (n \<noteq> 0)"
| "truthy (JStr s) = (s \<noteq> [])"
| "truthy (JArr vs) = True"
| "truthy (JObj kvs) = True"

text \<open>
  \<open>v.name\<close> for the property names the front end reads (\<open>error\<close>, \<open>done\<close>, \<open>content\<close>,
  \<open>response\<close>): \<open>None\<close> is the TypeError of reading a property of \<open>null\<close> or \<open>undefined\<close>;
  a primitive or an array has no property of these names.
\<close>

fun get_prop :: "jsval \<Rightarrow> jsstring \<Rightarrow> jsval option" where
  "get_prop JUndefined name = None"
| "get_prop JNull name = None"
| "get_prop (JObj kvs) name = (case map_of kvs name of Some v \<Rightarrow> Some v | None \<Rightarrow> Some JUndefined)"
| "get_prop v name = Some JUndefined"

text \<open>\<open>typeof data.response === 'string'\<close>, for a \<open>data\<close> that is not null or undefined.\<close>

definition response_is_string :: "jsval \<Rightarrow> bool" where
  "response_is_string data =
     (case get_prop data (js ''response'') of Some (JStr s) \<Rightarrow> True | _ \<Rightarrow> False)"

text \<open>A thrown \<open>Error\<close>; only its message is read by the front end.\<close>

datatype js_error = Error (message: jsstring)

text \<open>A settled promise: rejected with an error, or resolved with a value.\<close>

datatype 'a outcome = Rejected js_error | Resolved 'a

section \<open>The API service (services/api.js)\<close>

text \<open>
  What the network answers to \<open>fetch\<close>. \<open>text_body\<close> is the outcome of
  \<open>response.text()\<close>, \<open>json_body\<close> the outcome of \<open>response.json()\<close>. For the streaming
  endpoint \<open>body_reader\<close> is the outcome of \<open>response.body.getReader()\<close> (\<open>Inl\<close>: it
  throws); the reader yields the decoded text of each read in \<open>reads\<close>, and then ends as
  \<open>ending\<close> says: the stream is exhausted, the next read fails, or the next read never
  settles.
\<close>

datatype read_end = Exhausted | ReadFailed js_error | NeverSettles

record stream_body =
  reads :: "jsstring list"
  ending :: read_end

record http_response =
  ok :: bool
  status :: nat
  text_body :: "jsstring outcome"
  json_body :: "jsval outcome"
  body_reader :: "js_error + stream_body"

record request =
  path :: jsstring
  user_query :: jsstring

type_synonym fetch_fn = "request \<Rightarrow> http_response outcome"

text \<open>
  The error thrown on a reply that is not ok: \<open>Server error <status>\<close>, followed by
  \<open>: <body>\<close> when the body could be read and is not empty.
\<close>

definition server_error :: "http_response \<Rightarrow> js_error" where
  "server_error r =
     (let errorBody = (case text_body r of Resolved s \<Rightarrow> s | Rejected e \<Rightarrow> [])
      in Error (js ''Server error '' @ decimal (status r)
                @ (if errorBody \<noteq> [] then js '': '' @ errorBody else [])))"

text \<open>\<open>marketChatbotSync(userQuery)\<close>: \<open>Inl\<close> is the error it throws, \<open>Inr\<close> what it returns.\<close>

definition marketChatbotSync :: "fetch_fn \<Rightarrow> jsstring \<Rightarrow> js_error + jsval" where
  "marketChatbotSync fetch userQuery =
     (case fetch \<lparr>path = js ''/market_chatbot/sync'', user_query = userQuery\<rparr> of
        Rejected e \<Rightarrow> Inl e
      | Resolved response \<Rightarrow>
          if \<not> ok response then Inl (server_error response)
          else (case json_body response of
                  Rejected e \<Rightarrow> Inl e
                | Resolved data \<Rightarrow>
                    if \<not> truthy data \<or> \<not> response_is_string data
                    then Inl (Error (js ''Invalid response format from server''))
                    else Inr data))"

subsection \<open>The streaming endpoint\<close>

text \<open>\<open>s.split('\n')\<close>: the pieces between line feeds; never an empty list.\<close>

fun split_lines :: "jsstring \<Rightarrow> jsstring list" where
  "split_lines [] = [[]]"
| "split_lines (c # cs) =
     (if c = 0xA then [] # split_lines cs
      else (case split_lines cs of
              l # ls \<Rightarrow> (c # l) # ls
            | [] \<Rightarrow> [[c]]))"

text \<open>
  The argument of \<open>onError\<close>: an error that was thrown, or \<open>new Error(data.error)\<close> built
  from the error field of a parsed chunk.
\<close>

datatype stream_error = Thrown js_error | FromChunk jsval

datatype event = OnChunk jsval | OnComplete | OnError stream_error

fun is_terminal :: "event \<Rightarrow> bool" where
  "is_terminal (OnChunk c) = False"
| "is_terminal OnComplete = True"
| "is_terminal (OnError e) = True"

text \<open>
  A callback parameter: \<open>None\<close> when the caller passed none (each call is guarded by
  \<open>if (onX)\<close>), else the caller's function. Of the function only this matters here: given
  the callbacks invoked so far and its argument, it returns (\<open>None\<close>) or throws an error.
\<close>

type_synonym 'a callback = "(event list \<Rightarrow> 'a \<Rightarrow> js_error option) option"

record callbacks =
  onChunk :: "jsval callback"
  onComplete :: "unit callback"
  onError :: "stream_error callback"

text \<open>\<open>if (f) f(arg)\<close>: the callbacks invoked so far, with this call if it is made, and the
  error the call throws, if any.\<close>

fun invoke :: "'a callback \<Rightarrow> event \<Rightarrow> 'a \<Rightarrow> event list \<Rightarrow> event list \<times> js_error option" where
  "invoke None ev arg tr = (tr, None)"
| "invoke (Some f) ev arg tr = (tr @ [ev], f tr arg)"

text \<open>The body of a loop either goes on or returns from the function; both carry the
  callbacks invoked so far.\<close>

datatype flow = Continue "event list" | Return "event list"

text \<open>
  One line of the event stream, inside the inner \<open>try\<close>. \<open>JSON_parse\<close> is the platform's
  parser (\<open>None\<close>: it throws). Whatever is thrown inside the \<open>try\<close> is caught and logged,
  and the loop goes on: a parse error, the TypeError of reading a property of \<open>null\<close>, and
  also an error thrown by a callback, in which case the \<open>return\<close> after the call is not
  reached.
\<close>

definition handle_line ::
  "(jsstring \<Rightarrow> jsval option) \<Rightarrow> callbacks \<Rightarrow> jsstring \<Rightarrow> event list \<Rightarrow> flow" where
  "handle_line JSON_parse cb line tr =
     (if take 6 line = js ''data: '' then
        (case JSON_parse (drop 6 line) of
           None \<Rightarrow> Continue tr
         | Some data \<Rightarrow>
             (case (get_prop data (js ''error''), get_prop data (js ''done''),
                    get_prop data (js ''content'')) of
                (Some err, Some dn, Some content) \<Rightarrow>
                  if truthy err then
                    (case invoke (onError cb) (OnError (FromChunk err)) (FromChunk err) tr of
                       (tr', None) \<Rightarrow> Return tr'
                     | (tr', Some e) \<Rightarrow> Continue tr')
                  else if truthy dn then
                    (case invoke (onComplete cb) OnComplete () tr of
                       (tr', None) \<Rightarrow> Return tr'
                     | (tr', Some e) \<Rightarrow> Continue tr')
                  else if truthy content then
                    Continue (fst (invoke (onChunk cb) (OnChunk content) content tr))
                  else Continue tr
              | _ \<Rightarrow> Continue tr))
      else Continue tr)"

fun for_lines ::
  "(jsstring \<Rightarrow> jsval option) \<Rightarrow> callbacks \<Rightarrow> jsstring list \<Rightarrow> event list \<Rightarrow> flow" where
  "for_lines JSON_parse cb [] tr = Continue tr"
| "for_lines JSON_parse cb (line # lines) tr =
     (case handle_line JSON_parse cb line tr of
        Return tr' \<Rightarrow> Return tr'
      | Continue tr' \<Rightarrow> for_lines JSON_parse cb lines tr')"

text \<open>How the function ends: it returns, it throws, or it never settles.\<close>

datatype result = Returned | Threw js_error | Hangs

text \<open>
  The \<open>while (true)\<close> loop over the reads, with the text buffered so far. At the end of
  the stream \<open>onComplete\<close> is called inside the outer \<open>try\<close>: an error it throws goes to the
  \<open>catch\<close> block.
\<close>

fun read_loop ::
  "(jsstring \<Rightarrow> jsval option) \<Rightarrow> callbacks \<Rightarrow> jsstring \<Rightarrow> jsstring list \<Rightarrow> read_end
     \<Rightarrow> event list \<Rightarrow> event list \<times> result" where
  "read_loop JSON_parse cb buffer [] Exhausted tr =
     (case invoke (onComplete cb) OnComplete () tr of
        (tr', None) \<Rightarrow> (tr', Returned)
      | (tr', Some e) \<Rightarrow> (tr', Threw e))"
| "read_loop JSON_parse cb buffer [] (ReadFailed e) tr = (tr, Threw e)"
| "read_loop JSON_parse cb buffer [] NeverSettles tr = (tr, Hangs)"
| "read_loop JSON_parse cb buffer (v # vs) fin tr =
     (let lines = split_lines (buffer @ v) in
      case for_lines JSON_parse cb (butlast lines) tr of
        Return tr' \<Rightarrow> (tr', Returned)
      | Continue tr' \<Rightarrow> read_loop JSON_parse cb (last lines) vs fin tr')"

text \<open>The \<open>try\<close> block of \<open>portfolioChatbotStream\<close>.\<close>

definition stream_try ::
  "(jsstring \<Rightarrow> jsval option) \<Rightarrow> fetch_fn \<Rightarrow> callbacks \<Rightarrow> jsstring \<Rightarrow> event list \<times> result" where
  "stream_try JSON_parse fetch cb userQuery =
     (case fetch \<lparr>path = js ''/portfolio_chatbot/stream'', user_query = userQuery\<rparr> of
        Rejected e \<Rightarrow> ([], Threw e)
      | Resolved response \<Rightarrow>
          if \<not> ok response then ([], Threw (server_error response))
          else (case body_reader response of
                  Inl e \<Rightarrow> ([], Threw e)
                | Inr body \<Rightarrow> read_loop JSON_parse cb [] (reads body) (ending body) []))"

text \<open>
  \<open>portfolioChatbotStream(userQuery, onChunk, onComplete, onError)\<close>: the callbacks it
  invokes, in order, and how it ends. The \<open>catch\<close> block reports the error to \<open>onError\<close>
  and throws it again; an error \<open>onError\<close> throws there is thrown instead.
\<close>

definition portfolioChatbotStream ::
  "(jsstring \<Rightarrow> jsval option) \<Rightarrow> fetch_fn \<Rightarrow> callbacks \<Rightarrow> jsstring \<Rightarrow> event list \<times> result" where
  "portfolioChatbotStream JSON_parse fetch cb userQuery =
     (case stream_try JSON_parse fetch cb userQuery of
        (tr, Threw e) \<Rightarrow>
          (case invoke (onError cb) (OnError (Thrown e)) (Thrown e) tr of
             (tr', None) \<Rightarrow> (tr', Threw e)
           | (tr', Some e') \<Rightarrow> (tr', Threw e'))
      | (tr, r) \<Rightarrow> (tr, r))"

text \<open>
  The callbacks the streaming query is expected to make, stated on the lines of the whole
  stream. A chunk is a line \<open>data: <json>\<close> whose payload parses; it reports an error when
  its \<open>error\<close> field is truthy, else the end when its \<open>done\<close> field is truthy, else content
  when its \<open>content\<close> field is truthy.
\<close>

datatype chunk = ErrorChunk jsval | DoneChunk | ContentChunk jsval | NoChunk

definition chunk_of :: "(jsstring \<Rightarrow> jsval option) \<Rightarrow> jsstring \<Rightarrow> chunk" where
  "chunk_of JSON_parse line =
     (if take 6 line = js ''data: '' then
        (case JSON_parse (drop 6 line) of
           None \<Rightarrow> NoChunk
         | Some data \<Rightarrow>
             (case get_prop data (js ''error'') of
                None \<Rightarrow> NoChunk
              | Some err \<Rightarrow>
                  if truthy err then ErrorChunk err
                  else (case get_prop data (js ''done'') of
                          None \<Rightarrow> NoChunk
                        | Some dn \<Rightarrow>
                            if truthy dn then DoneChunk
                            else (case get_prop data (js ''content'') of
                                    None \<Rightarrow> NoChunk
                                  | Some content \<Rightarrow>
                                      if truthy content then ContentChunk content
                                      else NoChunk))))
      else NoChunk)"

text \<open>
  The callbacks expected for a list of lines, and whether a terminal chunk ended them:
  content is forwarded (when \<open>onChunk\<close> was passed) up to the first chunk that reports an
  error or the end; nothing after that chunk is forwarded.
\<close>

fun expected_for_lines ::
  "(jsstring \<Rightarrow> jsval option) \<Rightarrow> bool \<Rightarrow> jsstring list \<Rightarrow> event list \<times> bool" where
  "expected_for_lines JSON_parse forward [] = ([], False)"
| "expected_for_lines JSON_parse forward (line # lines) =
     (case chunk_of JSON_parse line of
        ErrorChunk err \<Rightarrow> ([OnError (FromChunk err)], True)
      | DoneChunk \<Rightarrow> ([OnComplete], True)
      | ContentChunk content \<Rightarrow>
          (case expected_for_lines JSON_parse forward lines of
             (evs, ended) \<Rightarrow> ((if forward then [OnChunk content] else []) @ evs, ended))
      | NoChunk \<Rightarrow> expected_for_lines JSON_parse forward lines)"

text \<open>
  The callbacks expected for a stream, and how the function ends: if no chunk ended the
  lines, the exhausted stream completes, a failed read is reported to \<open>onError\<close> and
  thrown, and a read that never settles leaves the consumer without a terminal callback.
  The lines are the complete lines of all the text read; text after the last line feed is
  not a line.
\<close>

definition expected_for_stream ::
  "(jsstring \<Rightarrow> jsval option) \<Rightarrow> bool \<Rightarrow> stream_body \<Rightarrow> event list \<times> result" where
  "expected_for_stream JSON_parse forward body =
     (case expected_for_lines JSON_parse forward (butlast (split_lines (concat (reads body)))) of
        (evs, True) \<Rightarrow> (evs, Returned)
      | (evs, False) \<Rightarrow>
          (case ending body of
             Exhausted \<Rightarrow> (evs @ [OnComplete], Returned)
           | ReadFailed e \<Rightarrow> (evs @ [OnError (Thrown e)], Threw e)
           | NeverSettles \<Rightarrow> (evs, Hangs)))"

text \<open>The callbacks expected for a query: a failed request, a reply that is not ok and a
  body that cannot be read are reported to \<open>onError\<close> and thrown.\<close>

definition expected_callbacks ::
  "(jsstring \<Rightarrow> jsval option) \<Rightarrow> bool \<Rightarrow> http_response outcome \<Rightarrow> event list \<times> result" where
  "expected_callbacks JSON_parse forward reply =
     (case reply of
        Rejected e \<Rightarrow> ([OnError (Thrown e)], Threw e)
      | Resolved response \<Rightarrow>
          if \<not> ok response
          then ([OnError (Thrown (server_error response))], Threw (server_error response))
          else (case body_reader response of
                  Inl e \<Rightarrow> ([OnError (Thrown e)], Threw e)
                | Inr body \<Rightarrow> expected_for_stream JSON_parse forward body))"

section \<open>The market chat page (pages/Chat.jsx)\<close>

datatype role = User | Bot

text \<open>
  A message of the transcript. \<open>role\<close> is \<open>None\<close> when the object has no such property;
  \<open>streaming\<close> is set only by the portfolio page. The transcript is a JavaScript array:
  \<open>None\<close> is an empty slot.
\<close>

record message =
  role :: "role option"
  msg_text :: jsstring
  timestamp :: nat
  streaming :: bool

record chat_state =
  msgs :: "message option list"
  loading :: bool

text \<open>The object literals \<open>{ role: "user", text, timestamp }\<close> and \<open>{ role: "bot", ... }\<close>.\<close>

definition user_message :: "jsstring \<Rightarrow> nat \<Rightarrow> message" where
  "user_message q now = \<lparr>role = Some User, msg_text = q, timestamp = now, streaming = False\<rparr>"

definition bot_message :: "jsstring \<Rightarrow> nat \<Rightarrow> message" where
  "bot_message reply now = \<lparr>role = Some Bot, msg_text = reply, timestamp = now, streaming = False\<rparr>"

definition fallback_reply :: jsstring where
  "fallback_reply =
     js ''Sorry '' @ [0x2014] @ js '' I couldn't get a reply from the server. Please try again.''"

definition friendly_prefix :: jsstring where
  "friendly_prefix = js ''Sorry, something went wrong while contacting the market assistant. ''"

text \<open>The reply shown for what \<open>marketChatbotSync\<close> returned.\<close>

definition botReply :: "jsval \<Rightarrow> jsstring" where
  "botReply data =
     (if truthy data then
        (case get_prop data (js ''response'') of
           Some (JStr s) \<Rightarrow> if trim s \<noteq> [] then s else fallback_reply
         | _ \<Rightarrow> fallback_reply)
      else fallback_reply)"

text \<open>The text shown for an error: the friendly sentence, then the error's message
  (\<open>e.message\<close>, or the empty string when it is empty).\<close>

definition friendly :: "js_error \<Rightarrow> jsstring" where
  "friendly e = friendly_prefix @ message e"

text \<open>The \<open>try\<close>/\<open>catch\<close>/\<open>finally\<close> shared by \<open>handleSend\<close> and \<open>handleEdit\<close>: ask the
  server, append one bot message, clear the loading flag.\<close>

definition ask_and_reply :: "fetch_fn \<Rightarrow> jsstring \<Rightarrow> nat \<Rightarrow> chat_state \<Rightarrow> chat_state" where
  "ask_and_reply fetch q now st =
     (let reply = (case marketChatbotSync fetch q of
                     Inr data \<Rightarrow> botReply data
                   | Inl e \<Rightarrow> friendly e)
      in st\<lparr>msgs := msgs st @ [Some (bot_message reply now)], loading := False\<rparr>)"

text \<open>\<open>handleSend(q)\<close>; \<open>t_user\<close> and \<open>t_bot\<close> are the two readings of the clock.\<close>

definition handleSend :: "fetch_fn \<Rightarrow> jsstring \<Rightarrow> nat \<Rightarrow> nat \<Rightarrow> chat_state \<Rightarrow> chat_state" where
  "handleSend fetch q t_user t_bot st =
     ask_and_reply fetch q t_bot
       (st\<lparr>msgs := msgs st @ [Some (user_message q t_user)], loading := True\<rparr>)"

text \<open>\<open>a[i] = v\<close> on a JavaScript array: beyond the end the array grows, leaving empty slots.\<close>

definition array_set :: "'a option list \<Rightarrow> nat \<Rightarrow> 'a \<Rightarrow> 'a option list" where
  "array_set xs i v =
     (if i < length xs then xs[i := Some v]
      else xs @ replicate (i - length xs) None @ [Some v])"

text \<open>\<open>{ ...m, text: newText, timestamp: new Date() }\<close>; spreading an empty slot adds nothing.\<close>

definition spread_edit :: "message option \<Rightarrow> jsstring \<Rightarrow> nat \<Rightarrow> message" where
  "spread_edit slot newText now =
     (case slot of
        Some m \<Rightarrow> m\<lparr>msg_text := newText, timestamp := now\<rparr>
      | None \<Rightarrow> \<lparr>role = None, msg_text = newText, timestamp = now, streaming = False\<rparr>)"

text \<open>
  The first lines of \<open>handleEdit(index, newText)\<close>, the same in Chat.jsx and
  PortfolioChat.jsx: \<open>msgs.slice(0, index + 1)\<close>, then the assignment at \<open>index\<close>.
\<close>

definition edited_transcript ::
  "message option list \<Rightarrow> nat \<Rightarrow> jsstring \<Rightarrow> nat \<Rightarrow> message option list" where
  "edited_transcript ms index newText now =
     (let newMsgs = take (index + 1) ms;
          slot = (if index < length newMsgs then newMsgs ! index else None)
      in array_set newMsgs index (spread_edit slot newText now))"

definition handleEdit ::
  "fetch_fn \<Rightarrow> nat \<Rightarrow> jsstring \<Rightarrow> nat \<Rightarrow> nat \<Rightarrow> chat_state \<Rightarrow> chat_state" where
  "handleEdit fetch index newText t_edit t_bot st =
     ask_and_reply fetch newText t_bot
       (st\<lparr>msgs := edited_transcript (msgs st) index newText t_edit, loading := True\<rparr>)"

section \<open>The chat input (components/ChatInput.jsx)\<close>

record input_state =
  input_text :: jsstring
  input_loading :: bool

text \<open>\<open>submit(e)\<close>: the argument \<open>onSend\<close> is called with, if it is called, and the new
  content of the field.\<close>

definition submit :: "input_state \<Rightarrow> jsstring option \<times> input_state" where
  "submit st =
     (let t = trim (input_text st) in
      if t = [] \<or> input_loading st then (None, st)
      else (Some t, st\<lparr>input_text := []\<rparr>))"

text \<open>\<open>handleKeyDown(e)\<close>: the Enter key without Shift submits; any other key does not.\<close>

definition handleKeyDown :: "jsstring \<Rightarrow> bool \<Rightarrow> input_state \<Rightarrow> jsstring option \<times> input_state" where
  "handleKeyDown key shiftKey st =
     (if key = js ''Enter'' \<and> \<not> shiftKey then submit st else (None, st))"

text \<open>The text of the last message of the transcript, as the page displays it.\<close>

definition last_text :: "chat_state \<Rightarrow> jsstring" where
  "last_text st = (case rev (msgs st) of Some m # ms \<Rightarrow> msg_text m | _ \<Rightarrow> [])"

section \<open>The tool planner\<close>

text \<open>
  Modelled from the spec: \<open>share_agent.py\<close> (\<open>Agent.plan_tools\<close>, \<open>_extract_json\<close>,
  \<open>_validate_tools\<close>) is not among the sources; only its description in the documents is.
  The language model is the function \<open>llm\<close>: the text it answers to the \<open>i\<close>-th planning
  call for a prompt. The four extraction strategies (fenced block, bracket-delimited
  substring, whole-response parse, line repair) are a list of partial parsers, tried in
  order; the text of the corrective instruction is a parameter.
\<close>

record tool_spec =
  tool_name :: string
  required_fields :: "string list"
  idempotent :: bool
  concurrency_safe :: bool

datatype origin = Planner | Fallback

record planned_call =
  call_tool :: string
  call_input :: "(string \<times> string) list"
  call_origin :: origin

type_synonym proposed_call = "string \<times> (string \<times> string) list"
type_synonym strategy = "string \<Rightarrow> proposed_call list option"

datatype planning_error = PlanningError

text \<open>Modelled from the spec: the cascade of extraction strategies; the first that yields
  syntactically valid output wins.\<close>

fun extract_json :: "strategy list \<Rightarrow> string \<Rightarrow> proposed_call list option" where
  "extract_json [] response = None"
| "extract_json (s # ss) response =
     (case s response of Some calls \<Rightarrow> Some calls | None \<Rightarrow> extract_json ss response)"

text \<open>Modelled from the spec: a proposed call is kept when its tool is registered and every
  required input field is present; the others are dropped.\<close>

definition valid_call :: "tool_spec list \<Rightarrow> proposed_call \<Rightarrow> bool" where
  "valid_call registry c =
     list_ex (\<lambda>t. tool_name t = fst c \<and> list_all (\<lambda>f. f \<in> fst ` set (snd c)) (required_fields t))
       registry"

text \<open>Modelled from the spec: validation of a proposed plan against the registry; the
  calls that pass are the planner's calls.\<close>

definition validate_tools :: "tool_spec list \<Rightarrow> proposed_call list \<Rightarrow> planned_call list" where
  "validate_tools registry calls =
     map (\<lambda>c. \<lparr>call_tool = fst c, call_input = snd c, call_origin = Planner\<rparr>)
       (filter (valid_call registry) calls)"

text \<open>Modelled from the spec: the prompt of attempt \<open>i\<close>; a retry appends the corrective
  instruction.\<close>

definition attempt_prompt :: "string \<Rightarrow> string \<Rightarrow> nat \<Rightarrow> string" where
  "attempt_prompt prompt corrective i = (if i = 0 then prompt else prompt @ corrective)"

text \<open>Modelled from the spec: attempt \<open>i\<close> and, while extraction fails, up to \<open>retries\<close> more.
  Returns what was extracted, if anything, and the prompts that were sent.\<close>

fun plan_attempts ::
  "(nat \<Rightarrow> string \<Rightarrow> string) \<Rightarrow> strategy list \<Rightarrow> string \<Rightarrow> string \<Rightarrow> nat \<Rightarrow> nat
     \<Rightarrow> proposed_call list option \<times> string list" where
  "plan_attempts llm strategies prompt corrective i 0 =
     (extract_json strategies (llm i (attempt_prompt prompt corrective i)),
      [attempt_prompt prompt corrective i])"
| "plan_attempts llm strategies prompt corrective i (Suc retries) =
     (case extract_json strategies (llm i (attempt_prompt prompt corrective i)) of
        Some calls \<Rightarrow> (Some calls, [attempt_prompt prompt corrective i])
      | None \<Rightarrow>
          (case plan_attempts llm strategies prompt corrective (Suc i) retries of
             (r, sent) \<Rightarrow> (r, attempt_prompt prompt corrective i # sent)))"

text \<open>Modelled from the spec: the default number of retries.\<close>

definition default_max_retries :: nat where
  "default_max_retries = 2"

text \<open>Modelled from the spec: \<open>Plan\<close> (\<open>plan_tools\<close>). The result is the plan, or an error, and
  the prompts sent to the language model. Output that stays unparseable gives the empty
  plan.\<close>

definition plan_tools ::
  "tool_spec list \<Rightarrow> (nat \<Rightarrow> string \<Rightarrow> string) \<Rightarrow> strategy list \<Rightarrow> string \<Rightarrow> nat \<Rightarrow> string
     \<Rightarrow> (planning_error + planned_call list) \<times> string list" where
  "plan_tools registry llm strategies corrective max_retries prompt =
     (case plan_attempts llm strategies prompt corrective 0 max_retries of
        (Some calls, sent) \<Rightarrow> (Inr (validate_tools registry calls), sent)
      | (None, sent) \<Rightarrow> (Inr [], sent))"

section \<open>The result cache and the execution engine\<close>

text \<open>
  Modelled from the spec: \<open>ToolResultCache\<close> and \<open>Agent.execute_tools\<close> of \<open>share_agent.py\<close>
  are not among the sources. A key is the fingerprint of a tool name and its normalised
  input; time is a count of seconds. An entry is valid while \<open>now < expires_at\<close>; an
  expired entry is treated as absent.
\<close>

record 'v cache_entry =
  entry_value :: 'v
  expires_at :: nat

type_synonym ('k, 'v) cache = "'k \<Rightarrow> 'v cache_entry option"

text \<open>Modelled from the spec: \<open>Get(key)\<close> at the time \<open>now\<close>; \<open>None\<close> is a miss.\<close>

definition cache_get :: "('k, 'v) cache \<Rightarrow> 'k \<Rightarrow> nat \<Rightarrow> 'v option" where
  "cache_get c k now =
     (case c k of
        None \<Rightarrow> None
      | Some e \<Rightarrow> if now < expires_at e then Some (entry_value e) else None)"

text \<open>Modelled from the spec: \<open>Put(key, value, ttl)\<close> at the time \<open>now\<close>.\<close>

definition cache_put :: "('k, 'v) cache \<Rightarrow> 'k \<Rightarrow> 'v \<Rightarrow> nat \<Rightarrow> nat \<Rightarrow> ('k, 'v) cache" where
  "cache_put c k v ttl now = c(k \<mapsto> \<lparr>entry_value = v, expires_at = now + ttl\<rparr>)"

datatype tool_error = ToolFailed | TimedOut

text \<open>What the engine observes: a call with key \<open>k\<close> arrives at a time, and an upstream
  invocation for \<open>k\<close> completes at a time, with a value or a failure.\<close>

datatype ('k, 'v) engine_event =
    Call 'k nat
  | Done 'k nat "tool_error + 'v"

text \<open>How the engine answered a call.\<close>

datatype ('k, 'v) served =
    ServedFromCache 'k nat 'v
  | Coalesced 'k nat
  | Invoked 'k nat

record ('k, 'v) engine =
  entries :: "('k, 'v) cache"
  in_flight :: "'k set"
  served_log :: "('k, 'v) served list"

text \<open>Modelled from the spec: an engine with an empty cache and nothing in flight.\<close>

definition new_engine :: "('k, 'v) engine" where
  "new_engine = \<lparr>entries = Map.empty, in_flight = {}, served_log = []\<rparr>"

text \<open>
  Modelled from the spec: one step of the engine. A call that is not idempotent is not
  eligible for caching and always goes upstream. An idempotent call is served from a valid
  entry; else it joins an invocation in flight for the same key (single-flight); else it
  invokes the upstream tool. A successful completion populates the cache for \<open>ttl k\<close>
  seconds; a failed one does not.
\<close>

fun engine_step ::
  "('k \<Rightarrow> nat) \<Rightarrow> ('k \<Rightarrow> bool) \<Rightarrow> ('k, 'v) engine \<Rightarrow> ('k, 'v) engine_event \<Rightarrow> ('k, 'v) engine" where
  "engine_step ttl idem s (Call k t) =
     (if \<not> idem k then s\<lparr>served_log := served_log s @ [Invoked k t]\<rparr>
      else (case cache_get (entries s) k t of
              Some v \<Rightarrow> s\<lparr>served_log := served_log s @ [ServedFromCache k t v]\<rparr>
            | None \<Rightarrow>
                if k \<in> in_flight s then s\<lparr>served_log := served_log s @ [Coalesced k t]\<rparr>
                else s\<lparr>in_flight := insert k (in_flight s),
                       served_log := served_log s @ [Invoked k t]\<rparr>))"
| "engine_step ttl idem s (Done k t res) =
     (if idem k \<and> k \<in> in_flight s then
        (case res of
           Inr v \<Rightarrow> s\<lparr>in_flight := in_flight s - {k},
                       entries := cache_put (entries s) k v (ttl k) t\<rparr>
         | Inl e \<Rightarrow> s\<lparr>in_flight := in_flight s - {k}\<rparr>)
      else s)"

text \<open>Modelled from the spec: the engine takes the events it observes one after the other.\<close>

fun engine_run ::
  "('k \<Rightarrow> nat) \<Rightarrow> ('k \<Rightarrow> bool) \<Rightarrow> ('k, 'v) engine \<Rightarrow> ('k, 'v) engine_event list \<Rightarrow> ('k, 'v) engine" where
  "engine_run ttl idem s [] = s"
| "engine_run ttl idem s (e # es) = engine_run ttl idem (engine_step ttl idem s e) es"

fun event_time :: "('k, 'v) engine_event \<Rightarrow> nat" where
  "event_time (Call k t) = t"
| "event_time (Done k t res) = t"

fun failed_for :: "'k \<Rightarrow> ('k, 'v) engine_event \<Rightarrow> bool" where
  "failed_for k (Done k' t (Inl e)) = (k' = k)"
| "failed_for k ev = False"

fun invoked_in :: "'k \<Rightarrow> nat \<Rightarrow> nat \<Rightarrow> ('k, 'v) served \<Rightarrow> bool" where
  "invoked_in k lo hi (Invoked k' t) = (k' = k \<and> lo \<le> t \<and> t < hi)"
| "invoked_in k lo hi a = False"

text \<open>The number of upstream invocations for key \<open>k\<close> at a time in \<open>[lo, hi)\<close>.\<close>

definition upstream_calls :: "'k \<Rightarrow> nat \<Rightarrow> nat \<Rightarrow> ('k, 'v) served list \<Rightarrow> nat" where
  "upstream_calls k lo hi lg = length (filter (invoked_in k lo hi) lg)"

section \<open>The conversation memory\<close>

text \<open>
  Modelled from the spec: \<open>main_sharebot.py\<close> (\<open>add_to_memory\<close> and the compression of the
  memory) is not among the sources. The summary is written by a language-model call,
  here the function \<open>summarize\<close>. The most recent half that is kept verbatim is read as the
  last \<open>max_turns\<close> turns, half of the \<open>2 \<times> max_turns\<close> at which compression is forced;
  all older turns are replaced by the one summary turn.
\<close>

datatype turn_role = UserTurn | AssistantTurn

record turn =
  turn_role :: turn_role
  content :: string
  turn_time :: nat

record memory_config =
  max_turns :: nat
  content_cap :: nat

text \<open>Modelled from the spec: \<open>Append\<close> truncates the content to the configured cap.\<close>

definition Append :: "memory_config \<Rightarrow> turn \<Rightarrow> turn list \<Rightarrow> turn list" where
  "Append cfg t mem = mem @ [t\<lparr>content := take (content_cap cfg) (content t)\<rparr>]"

text \<open>Modelled from the spec: \<open>CompressIfNeeded\<close>.\<close>

definition CompressIfNeeded ::
  "memory_config \<Rightarrow> (turn list \<Rightarrow> string) \<Rightarrow> nat \<Rightarrow> turn list \<Rightarrow> turn list" where
  "CompressIfNeeded cfg summarize now mem =
     (if length mem > 2 * max_turns cfg then
        \<lparr>turn_role = AssistantTurn,
         content = summarize (take (length mem - max_turns cfg) mem),
         turn_time = now\<rparr>
        # drop (length mem - max_turns cfg) mem
      else mem)"

text \<open>Modelled from the spec: the memory manager appends each turn and then triggers
  compression if needed.\<close>

fun record_turns ::
  "memory_config \<Rightarrow> (turn list \<Rightarrow> string) \<Rightarrow> turn list \<Rightarrow> turn list \<Rightarrow> turn list" where
  "record_turns cfg summarize mem [] = mem"
| "record_turns cfg summarize mem (t # ts) =
     record_turns cfg summarize
       (CompressIfNeeded cfg summarize (turn_time t) (Append cfg t mem)) ts"

section \<open>The session store\<close>

text \<open>
  Modelled from the spec: \<open>store.py\<close> and \<open>manager.py\<close> (the \<open>SessionManager\<close>) are not
  among the sources. A record is the spec's SessionRecord. The store is keyed by the pair
  of \<open>user_id\<close> and \<open>provider\<close>, so it holds at most one record for a pair.
  (README_SESSION_TESTING.md describes the storage it documents as one session per
  file; the keyed store is the design the spec prescribes in its place.)
\<close>

datatype session_status = UNINITIALIZED | PENDING_LOGIN | ACTIVE | EXPIRED | INVALID

record session_record =
  user_id :: string
  provider :: string
  credential :: string
  created_at :: nat
  last_validated_at :: nat
  session_status :: session_status
  metadata :: "(string \<times> string) list"

type_synonym session_key = "string \<times> string"
type_synonym session_store = "session_key \<Rightarrow> session_record option"

text \<open>
  Modelled from the spec: the Session Manager of one process. \<open>stored\<close> is the durable
  storage, which outlives the process; \<open>working\<close> is what the process holds in memory.
\<close>

record session_manager =
  stored :: session_store
  working :: session_store

text \<open>Modelled from the spec: a process that starts loads the durable records; a restart
  loses the memory of the old process and starts a new one on the same storage.\<close>

definition start_manager :: "session_store \<Rightarrow> session_manager" where
  "start_manager store = \<lparr>stored = store, working = store\<rparr>"

definition restart :: "session_manager \<Rightarrow> session_manager" where
  "restart m = start_manager (stored m)"

text \<open>Modelled from the spec: every mutation of a record is persisted to durable storage,
  under the key of its user and provider.\<close>

definition persist :: "session_key \<Rightarrow> session_record \<Rightarrow> session_manager \<Rightarrow> session_manager" where
  "persist k r m = m\<lparr>stored := (stored m)(k \<mapsto> r), working := (working m)(k \<mapsto> r)\<rparr>"

text \<open>Modelled from the spec: the status of a pair; no record means UNINITIALIZED.\<close>

definition status_of :: "session_manager \<Rightarrow> string \<Rightarrow> string \<Rightarrow> session_status" where
  "status_of m uid prov =
     (case working m (uid, prov) of None \<Rightarrow> UNINITIALIZED | Some r \<Rightarrow> session_status r)"

text \<open>Modelled from the spec: \<open>BeginLogin\<close> starts the login handshake: the pair becomes
  PENDING_LOGIN.\<close>

definition BeginLogin :: "string \<Rightarrow> string \<Rightarrow> nat \<Rightarrow> session_manager \<Rightarrow> session_manager" where
  "BeginLogin uid prov now m =
     persist (uid, prov)
       (case working m (uid, prov) of
          None \<Rightarrow> \<lparr>user_id = uid, provider = prov, credential = [], created_at = now,
                    last_validated_at = now, session_status = PENDING_LOGIN, metadata = []\<rparr>
        | Some r \<Rightarrow> r\<lparr>session_status := PENDING_LOGIN\<rparr>)
       m"

text \<open>Modelled from the spec: \<open>CompleteLogin\<close> persists a new record with status ACTIVE.\<close>

definition CompleteLogin ::
  "string \<Rightarrow> string \<Rightarrow> string \<Rightarrow> nat \<Rightarrow> session_manager \<Rightarrow> session_manager" where
  "CompleteLogin uid prov cred now m =
     persist (uid, prov)
       \<lparr>user_id = uid, provider = prov, credential = cred, created_at = now,
        last_validated_at = now, session_status = ACTIVE, metadata = []\<rparr> m"

text \<open>Modelled from the spec: \<open>Validate\<close>, given the answer of the upstream check: success
  updates \<open>last_validated_at\<close>, failure makes the record EXPIRED. A pair without a record
  stays as it is.\<close>

definition Validate :: "string \<Rightarrow> string \<Rightarrow> bool \<Rightarrow> nat \<Rightarrow> session_manager \<Rightarrow> session_manager" where
  "Validate uid prov upstream_ok now m =
     (case working m (uid, prov) of
        None \<Rightarrow> m
      | Some r \<Rightarrow>
          persist (uid, prov)
            (if upstream_ok then r\<lparr>last_validated_at := now\<rparr>
             else r\<lparr>session_status := EXPIRED\<rparr>) m)"

datatype auth_error = AuthRequired

text \<open>Modelled from the spec: \<open>GetActive\<close> returns the credential only if the status is
  ACTIVE and the last validation lies within the freshness window.\<close>

definition GetActive ::
  "nat \<Rightarrow> string \<Rightarrow> string \<Rightarrow> nat \<Rightarrow> session_manager \<Rightarrow> auth_error + string" where
  "GetActive window uid prov now m =
     (case working m (uid, prov) of
        None \<Rightarrow> Inl AuthRequired
      | Some r \<Rightarrow>
          if session_status r = ACTIVE \<and> now \<le> last_validated_at r + window
          then Inr (credential r) else Inl AuthRequired)"

text \<open>Modelled from the spec: the operations of the state machine, through which alone the
  records are mutated.\<close>

datatype session_op =
    DoBeginLogin string string nat
  | DoCompleteLogin string string string nat
  | DoValidate string string bool nat

fun apply_session_op :: "session_op \<Rightarrow> session_manager \<Rightarrow> session_manager" where
  "apply_session_op (DoBeginLogin uid prov now) m = BeginLogin uid prov now m"
| "apply_session_op (DoCompleteLogin uid prov cred now) m = CompleteLogin uid prov cred now m"
| "apply_session_op (DoValidate uid prov upstream_ok now) m = Validate uid prov upstream_ok now m"

fun op_key :: "session_op \<Rightarrow> session_key" where
  "op_key (DoBeginLogin uid prov now) = (uid, prov)"
| "op_key (DoCompleteLogin uid prov cred now) = (uid, prov)"
| "op_key (DoValidate uid prov upstream_ok now) = (uid, prov)"

text \<open>Modelled from the spec: the life of the storage, from empty: operations of the state
  machine, and restarts of the process, in any order.\<close>

datatype manager_step = Mutate session_op | Restart

fun take_step :: "session_manager \<Rightarrow> manager_step \<Rightarrow> session_manager" where
  "take_step m (Mutate op) = apply_session_op op m"
| "take_step m Restart = restart m"

definition reached :: "manager_step list \<Rightarrow> session_manager" where
  "reached steps = foldl take_step (start_manager Map.empty) steps"

text \<open>Every record is stored under the key of its own user and provider.\<close>

definition well_keyed :: "session_store \<Rightarrow> bool" where
  "well_keyed store \<longleftrightarrow>
     (\<forall>uid prov r. store (uid, prov) = Some r \<longrightarrow> user_id r = uid \<and> provider r = prov)"

section \<open>Sample inputs\<close>

definition blank_fetch :: fetch_fn where
  "blank_fetch req =
     Resolved \<lparr>ok = True, status = 200,
               text_body = Rejected (Error (js ''body stream already read'')),
               json_body = Resolved (JObj [(js ''response'', JStr (js ''  ''))]),
               body_reader = Inl (Error (js ''body stream already read''))\<rparr>"

definition failing_fetch :: fetch_fn where
  "failing_fetch req =
     Resolved \<lparr>ok = False, status = 500,
               text_body = Resolved (js ''Traceback (most recent call last): KeyError TCS''),
               json_body = Rejected (Error (js ''Unexpected token T in JSON'')),
               body_reader = Inl (Error (js ''body stream already read''))\<rparr>"

text \<open>Replies that are ok but carry no \<open>response\<close>, or one that is not a string.\<close>

definition no_response_fetch :: fetch_fn where
  "no_response_fetch req =
     Resolved \<lparr>ok = True, status = 200,
               text_body = Rejected (Error (js ''body stream already read'')),
               json_body = Resolved (JObj []),
               body_reader = Inl (Error (js ''body stream already read''))\<rparr>"

definition numeric_response_fetch :: fetch_fn where
  "numeric_response_fetch req =
     Resolved \<lparr>ok = True, status = 200,
               text_body = Rejected (Error (js ''body stream already read'')),
               json_body = Resolved (JObj [(js ''response'', JNum 5)]),
               body_reader = Inl (Error (js ''body stream already read''))\<rparr>"

definition empty_chat :: chat_state where
  "empty_chat = \<lparr>msgs = [], loading = False\<rparr>"

text \<open>A callback that returns, and one that throws.\<close>

definition returns :: "event list \<Rightarrow> 'a \<Rightarrow> js_error option" where
  "returns tr arg = None"

definition throws :: "event list \<Rightarrow> 'a \<Rightarrow> js_error option" where
  "throws tr arg = Some (Error (js ''setState on an unmounted component''))"

definition all_callbacks :: callbacks where
  "all_callbacks = \<lparr>onChunk = Some returns, onComplete = Some returns, onError = Some returns\<rparr>"

definition no_callbacks :: callbacks where
  "no_callbacks = \<lparr>onChunk = None, onComplete = None, onError = None\<rparr>"

definition throwing_onError :: callbacks where
  "throwing_onError = \<lparr>onChunk = Some returns, onComplete = Some returns, onError = Some throws\<rparr>"

text \<open>A parser that knows four payloads; it stands for \<open>JSON.parse\<close> on them.\<close>

definition sample_parse :: "jsstring \<Rightarrow> jsval option" where
  "sample_parse s =
     (if s = js ''{\"content\":\"Hi\"}'' then Some (JObj [(js ''content'', JStr (js ''Hi''))])
      else if s = js ''{\"content\":\"\",\"done\":true}''
        then Some (JObj [(js ''content'', JStr []), (js ''done'', JBool True)])
      else if s = js ''{\"error\":\"login required\"}''
        then Some (JObj [(js ''error'', JStr (js ''login required''))])
      else if s = js ''null'' then Some JNull
      else None)"

text \<open>A stream of two reads: a content chunk, a final chunk split across the reads, and a
  content chunk after it.\<close>

definition sample_stream_fetch :: fetch_fn where
  "sample_stream_fetch req =
     Resolved \<lparr>ok = True, status = 200,
               text_body = Rejected (Error (js ''body stream is locked'')),
               json_body = Rejected (Error (js ''body stream is locked'')),
               body_reader = Inr \<lparr>reads =
                   [js ''data: {\"content\":\"Hi\"}'' @ [0xA, 0xA] @ js ''data: {\"content\":\"\",\"do'',
                    js ''ne\":true}'' @ [0xA, 0xA] @ js ''data: {\"content\":\"Hi\"}'' @ [0xA]],
                 ending = Exhausted\<rparr>\<rparr>"

text \<open>A stream whose first chunk reports an error, followed by a content chunk and a final
  chunk.\<close>

definition error_first_fetch :: fetch_fn where
  "error_first_fetch req =
     Resolved \<lparr>ok = True, status = 200,
               text_body = Rejected (Error (js ''body stream is locked'')),
               json_body = Rejected (Error (js ''body stream is locked'')),
               body_reader = Inr \<lparr>reads =
                   [js ''data: {\"error\":\"login required\"}'' @ [0xA]
                    @ js ''data: {\"content\":\"Hi\"}'' @ [0xA]
                    @ js ''data: {\"content\":\"\",\"done\":true}'' @ [0xA]],
                 ending = Exhausted\<rparr>\<rparr>"

text \<open>A stream that sends one content chunk and then nothing more, without closing.\<close>

definition stalled_fetch :: fetch_fn where
  "stalled_fetch req =
     Resolved \<lparr>ok = True, status = 200,
               text_body = Rejected (Error (js ''body stream is locked'')),
               json_body = Rejected (Error (js ''body stream is locked'')),
               body_reader = Inr \<lparr>reads = [js ''data: {\"content\":\"Hi\"}'' @ [0xA]],
                 ending = NeverSettles\<rparr>\<rparr>"

definition garbled_llm :: "nat \<Rightarrow> string \<Rightarrow> string" where
  "garbled_llm i prompt = ''I would look up the price of TCS first.''"

definition whole_response_parse :: strategy where
  "whole_response_parse response = (if response = ''[]'' then Some [] else None)"

definition sample_registry :: "tool_spec list" where
  "sample_registry =
     [\<lparr>tool_name = ''get_stock_data'', required_fields = [''symbol''], idempotent = True,
       concurrency_safe = True\<rparr>]"

definition sample_ttl :: "string \<Rightarrow> nat" where
  "sample_ttl k = 60"

definition sample_idem :: "string \<Rightarrow> bool" where
  "sample_idem k = True"

definition sample_summarize :: "turn list \<Rightarrow> string" where
  "sample_summarize ts = ''Earlier the user asked about TCS.''"

definition sample_config :: memory_config where
  "sample_config = \<lparr>max_turns = 2, content_cap = 2000\<rparr>"

definition sample_turn :: "nat \<Rightarrow> turn" where
  "sample_turn n =
     \<lparr>turn_role = (if even n then UserTurn else AssistantTurn), content = ''turn'', turn_time = n\<rparr>"

text \<open>Two users complete a login with the same manager.\<close>

definition two_logins :: "manager_step list" where
  "two_logins =
     [Mutate (DoCompleteLogin ''demo-user'' ''kite'' ''session_id=A'' 1),
      Mutate (DoCompleteLogin ''second-user'' ''kite'' ''session_id=B'' 2)]"

definition sample_trace :: "(string, string) engine_event list" where
  "sample_trace =
     [Call ''TCS'' 0, Call ''TCS'' 1, Done ''TCS'' 2 (Inr ''3500''), Call ''TCS'' 30,
      Call ''TCS'' 62, Call ''TCS'' 63]"

definition failing_trace :: "(string, string) engine_event list" where
  "failing_trace = [Call ''TCS'' 0, Done ''TCS'' 1 (Inl TimedOut), Call ''TCS'' 2]"

section \<open>An invariant of the execution engine\<close>

text \<open>
  For a key \<open>k\<close>, at a time \<open>T\<close>: every upstream invocation for \<open>k\<close> so far happened at or
  before \<open>T\<close> and is covered by an invocation in flight or by a cache entry that lasts at
  least the TTL beyond it, and no window of one TTL holds two invocations.
\<close>

definition covered :: "('k \<Rightarrow> nat) \<Rightarrow> 'k \<Rightarrow> nat \<Rightarrow> ('k, 'v) engine \<Rightarrow> bool" where
  "covered ttl k T s \<longleftrightarrow>
     (\<forall>t. Invoked k t \<in> set (served_log s) \<longrightarrow>
        t \<le> T \<and> (k \<in> in_flight s \<or> (\<exists>e. entries s k = Some e \<and> t + ttl k \<le> expires_at e)))
     \<and> (\<forall>lo. upstream_calls k lo (lo + ttl k) (served_log s) \<le> 1)"

section \<open>Properties of the chat input\<close>

lemma trim_all_whitespace:
  assumes "list_all isWhiteSpace s"
  shows "trim s = []"
  using assms by (auto simp: trim_def list_all_iff dest: set_dropWhileD)

lemma trim_nonempty_ends:
  assumes "trim s \<noteq> []"
  shows "\<not> isWhiteSpace (hd (trim s))" and "\<not> isWhiteSpace (last (trim s))"
proof -
  let ?d = "dropWhile isWhiteSpace s"
  let ?r = "dropWhile isWhiteSpace (rev ?d)"
  from assms have r: "?r \<noteq> []" by (simp add: trim_def)
  then have "\<not> isWhiteSpace (hd ?r)" by (rule hd_dropWhile)
  then show "\<not> isWhiteSpace (last (trim s))" using r by (simp add: trim_def last_rev)
  from r have d: "?d \<noteq> []" by (metis dropWhile.simps(1) rev.simps(1))
  then have hd_d: "\<not> isWhiteSpace (hd ?d)" by (rule hd_dropWhile)
  have "last ?r = last (rev ?d)"
    using r by (metis last_appendR takeWhile_dropWhile_id)
  then have "hd (rev ?r) = hd ?d" using r d by (simp add: hd_rev last_rev)
  then show "\<not> isWhiteSpace (hd (trim s))" using hd_d by (simp add: trim_def)
qed

lemma trim_not_all_whitespace: "trim s \<noteq> [] \<Longrightarrow> \<not> list_all isWhiteSpace (trim s)"
  using trim_nonempty_ends(1)[of s] by (cases "trim s") auto

text \<open>
  C10. A submission, by the button or by the Enter key, calls \<open>onSend\<close> exactly when the
  trimmed text is not empty and the loading flag is false. The argument is the trimmed text, which then neither starts nor
  ends with white space, and the field is reset to the empty string. Otherwise nothing is
  sent and the field is unchanged; in particular text made of white space only is never
  sent.
\<close>

theorem submit_sends_trimmed_text:
  "(fst (submit st) = Some t \<longleftrightarrow> t = trim (input_text st) \<and> t \<noteq> [] \<and> \<not> input_loading st)
   \<and> (fst (submit st) = Some t \<longrightarrow>
        input_text (snd (submit st)) = [] \<and> \<not> list_all isWhiteSpace t
        \<and> \<not> isWhiteSpace (hd t) \<and> \<not> isWhiteSpace (last t))
   \<and> (fst (submit st) = None \<longrightarrow> snd (submit st) = st)
   \<and> (list_all isWhiteSpace (input_text st) \<longrightarrow> fst (submit st) = None)
   \<and> (fst (handleKeyDown key shiftKey st) = Some t \<longrightarrow>
        key = js ''Enter'' \<and> \<not> shiftKey \<and> handleKeyDown key shiftKey st = submit st)"
  using trim_nonempty_ends[of "input_text st"] trim_not_all_whitespace[of "input_text st"]
    trim_all_whitespace[of "input_text st"]
  by (auto simp: submit_def handleKeyDown_def Let_def)

theorem submit_sends_trimmed_text_witness:
  "fst (submit \<lparr>input_text = js ''  price of TCS '', input_loading = False\<rparr>)
     = Some (js ''price of TCS'')
   \<and> input_text (snd (submit \<lparr>input_text = js ''  price of TCS '', input_loading = False\<rparr>)) = []
   \<and> fst (submit \<lparr>input_text = js ''   '', input_loading = False\<rparr>) = None
   \<and> fst (handleKeyDown (js ''Enter'') False
             \<lparr>input_text = js ''  price of TCS '', input_loading = False\<rparr>)
       = Some (js ''price of TCS'')"
  using submit_sends_trimmed_text
      [of "\<lparr>input_text = js ''  price of TCS '', input_loading = False\<rparr>" "js ''price of TCS''"
          "js ''Enter''" False]
    submit_sends_trimmed_text[of "\<lparr>input_text = js ''   '', input_loading = False\<rparr>" "[]"]
  by (simp add: submit_def handleKeyDown_def trim_def js_def isWhiteSpace_def)

section \<open>Properties of the synchronous query\<close>

lemma response_string_truthy:
  "get_prop d name = Some (JStr s) \<Longrightarrow> truthy d"
  by (cases d) auto

text \<open>
  C7. \<open>marketChatbotSync\<close> returns the parsed object \<open>d\<close> exactly when the reply is ok, its
  body parses to \<open>d\<close>, and the \<open>response\<close> field of \<open>d\<close> is a string; when it returns
  nothing, it throws an error.
\<close>

theorem marketChatbotSync_returns_iff:
  "(marketChatbotSync fetch q = Inr d \<longleftrightarrow>
      (\<exists>r s. fetch \<lparr>path = js ''/market_chatbot/sync'', user_query = q\<rparr> = Resolved r
         \<and> ok r \<and> json_body r = Resolved d
         \<and> get_prop d (js ''response'') = Some (JStr s)))
   \<and> ((\<forall>d'. marketChatbotSync fetch q \<noteq> Inr d') \<longrightarrow>
        (\<exists>e. marketChatbotSync fetch q = Inl e))"
proof (intro conjI impI)
  show "marketChatbotSync fetch q = Inr d \<longleftrightarrow>
      (\<exists>r s. fetch \<lparr>path = js ''/market_chatbot/sync'', user_query = q\<rparr> = Resolved r
         \<and> ok r \<and> json_body r = Resolved d
         \<and> get_prop d (js ''response'') = Some (JStr s))"
    using response_string_truthy[of d "js ''response''"]
    by (auto simp: marketChatbotSync_def response_is_string_def
             split: outcome.splits option.splits jsval.splits if_splits)
next
  assume "\<forall>d'. marketChatbotSync fetch q \<noteq> Inr d'"
  then show "\<exists>e. marketChatbotSync fetch q = Inl e"
    by (cases "marketChatbotSync fetch q") auto
qed

theorem marketChatbotSync_returns_iff_witness:
  "marketChatbotSync blank_fetch (js ''hi'') = Inr (JObj [(js ''response'', JStr (js ''  ''))])
   \<and> marketChatbotSync failing_fetch (js ''hi'')
       = Inl (Error (js ''Server error 500: Traceback (most recent call last): KeyError TCS''))"
  using marketChatbotSync_returns_iff
      [of blank_fetch "js ''hi''" "JObj [(js ''response'', JStr (js ''  ''))]"]
    marketChatbotSync_returns_iff
      [of failing_fetch "js ''hi''" "JObj [(js ''response'', JStr (js ''  ''))]"]
  by (simp add: marketChatbotSync_def blank_fetch_def failing_fetch_def server_error_def
      response_is_string_def decimal.simps js_def)

section \<open>Properties of the market chat page\<close>

lemma str_includes_prefix: "take (length t) xs = t \<Longrightarrow> str_includes xs t"
  by (cases xs) auto

lemma str_includes_infix: "str_includes (a @ t @ c) t"
proof (induction a)
  case Nil
  then show ?case using str_includes_prefix[of t "t @ c"] by simp
next
  case (Cons x a)
  then show ?case by simp
qed

lemma not_all_whitespace_nonempty: "\<not> list_all isWhiteSpace s \<Longrightarrow> s \<noteq> []"
  by auto

lemma fallback_reply_visible: "\<not> list_all isWhiteSpace fallback_reply"
  by (simp add: fallback_reply_def js_def isWhiteSpace_def)

lemma friendly_visible: "\<not> list_all isWhiteSpace (friendly e)"
  by (simp add: friendly_def friendly_prefix_def js_def isWhiteSpace_def)

lemma trim_visible: "trim s \<noteq> [] \<Longrightarrow> \<not> list_all isWhiteSpace s"
  using trim_all_whitespace by blast

lemma botReply_cases:
  "botReply data =
     (case get_prop data (js ''response'') of
        Some (JStr s) \<Rightarrow> if trim s \<noteq> [] then s else fallback_reply
      | _ \<Rightarrow> fallback_reply)"
  by (cases data) (auto simp: botReply_def split: option.splits jsval.splits)

lemma botReply_visible: "\<not> list_all isWhiteSpace (botReply data)"
  using fallback_reply_visible trim_visible
  by (auto simp: botReply_cases split: option.splits jsval.splits)

text \<open>
  C9, as stated, fails: when the \<open>response\<close> field is absent, or is not a string,
  \<open>marketChatbotSync\<close> throws before the page looks at the reply, and the page shows the
  friendly error text with the message of that error, not the fallback sentence.
\<close>

theorem handleSend_missing_response_shows_error_text:
  "last_text (handleSend no_response_fetch (js ''hi'') 1 2 empty_chat) =
     js ''Sorry, something went wrong while contacting the market assistant. Invalid response format from server''
   \<and> last_text (handleSend numeric_response_fetch (js ''hi'') 1 2 empty_chat) =
     js ''Sorry, something went wrong while contacting the market assistant. Invalid response format from server''
   \<and> last_text (handleSend no_response_fetch (js ''hi'') 1 2 empty_chat) \<noteq> fallback_reply"
  by (simp add: last_text_def handleSend_def ask_and_reply_def marketChatbotSync_def
      no_response_fetch_def numeric_response_fetch_def response_is_string_def friendly_def
      friendly_prefix_def fallback_reply_def empty_chat_def bot_message_def js_def)

lemma sync_reply_cases:
  assumes "fetch \<lparr>path = js ''/market_chatbot/sync'', user_query = q\<rparr> = Resolved r"
    and "ok r" and "json_body r = Resolved d"
  shows "marketChatbotSync fetch q =
     (case get_prop d (js ''response'') of
        Some (JStr s) \<Rightarrow> Inr d
      | _ \<Rightarrow> Inl (Error (js ''Invalid response format from server'')))"
  using assms
  by (cases d) (auto simp: marketChatbotSync_def response_is_string_def
      split: option.splits jsval.splits)

text \<open>
  C9, amended. A send appends the user message and exactly one bot message, and clears
  the loading flag; the text of the bot message is not empty and not made of white space
  only. For an ok reply whose body parses: the text is the \<open>response\<close> field when that is
  a string with visible content; the fixed fallback sentence when it is a string of white
  space only (or empty); and the friendly error sentence followed by
  \<open>Invalid response format from server\<close> when the field is absent or not a string.
\<close>

theorem handleSend_reply_text:
  "(\<exists>reply. handleSend fetch q t_user t_bot st =
        \<lparr>msgs = msgs st @ [Some (user_message q t_user), Some (bot_message reply t_bot)],
         loading = False\<rparr>
      \<and> reply \<noteq> [] \<and> \<not> list_all isWhiteSpace reply)
   \<and> (fetch \<lparr>path = js ''/market_chatbot/sync'', user_query = q\<rparr> = Resolved r \<and> ok r
        \<and> json_body r = Resolved d \<longrightarrow>
      last_text (handleSend fetch q t_user t_bot st) =
        (case get_prop d (js ''response'') of
           Some (JStr s) \<Rightarrow> if trim s \<noteq> [] then s else fallback_reply
         | _ \<Rightarrow> friendly_prefix @ js ''Invalid response format from server''))"
proof (intro conjI impI)
  define reply where "reply = (case marketChatbotSync fetch q of
                   Inr data \<Rightarrow> botReply data | Inl e \<Rightarrow> friendly e)"
  have vis: "\<not> list_all isWhiteSpace reply"
    unfolding reply_def using botReply_visible friendly_visible by (simp split: sum.splits)
  have "handleSend fetch q t_user t_bot st =
        \<lparr>msgs = msgs st @ [Some (user_message q t_user), Some (bot_message reply t_bot)],
         loading = False\<rparr>"
    by (simp add: handleSend_def ask_and_reply_def reply_def)
  then show "\<exists>reply. handleSend fetch q t_user t_bot st =
        \<lparr>msgs = msgs st @ [Some (user_message q t_user), Some (bot_message reply t_bot)],
         loading = False\<rparr>
      \<and> reply \<noteq> [] \<and> \<not> list_all isWhiteSpace reply"
    using vis not_all_whitespace_nonempty[OF vis] by blast
next
  assume a: "fetch \<lparr>path = js ''/market_chatbot/sync'', user_query = q\<rparr> = Resolved r \<and> ok r
        \<and> json_body r = Resolved d"
  have lt: "last_text (handleSend fetch q t_user t_bot st) =
      (case marketChatbotSync fetch q of Inr data \<Rightarrow> botReply data | Inl e \<Rightarrow> friendly e)"
    by (simp add: last_text_def handleSend_def ask_and_reply_def bot_message_def)
  from a have sync: "marketChatbotSync fetch q =
     (case get_prop d (js ''response'') of
        Some (JStr s) \<Rightarrow> Inr d
      | _ \<Rightarrow> Inl (Error (js ''Invalid response format from server'')))"
    by (intro sync_reply_cases) auto
  show "last_text (handleSend fetch q t_user t_bot st) =
        (case get_prop d (js ''response'') of
           Some (JStr s) \<Rightarrow> if trim s \<noteq> [] then s else fallback_reply
         | _ \<Rightarrow> friendly_prefix @ js ''Invalid response format from server'')"
    unfolding lt sync
    by (auto simp: botReply_cases friendly_def split: option.splits jsval.splits)
qed

theorem handleSend_reply_text_witness:
  "handleSend blank_fetch (js ''hi'') 1 2 empty_chat =
     \<lparr>msgs = [Some (user_message (js ''hi'') 1), Some (bot_message fallback_reply 2)],
      loading = False\<rparr>
   \<and> last_text (handleSend blank_fetch (js ''hi'') 1 2 empty_chat) = fallback_reply"
  using handleSend_reply_text[of blank_fetch "js ''hi''" 1 2 empty_chat
      "\<lparr>ok = True, status = 200,
               text_body = Rejected (Error (js ''body stream already read'')),
               json_body = Resolved (JObj [(js ''response'', JStr (js ''  ''))]),
               body_reader = Inl (Error (js ''body stream already read''))\<rparr>"
      "JObj [(js ''response'', JStr (js ''  ''))]"]
  by (simp add: last_text_def handleSend_def ask_and_reply_def marketChatbotSync_def blank_fetch_def
      response_is_string_def botReply_def trim_def isWhiteSpace_def empty_chat_def
      bot_message_def js_def)

text \<open>
  C2, as stated, fails: on a reply that is not ok the text appended to the transcript
  holds the status code and the body the server sent.
\<close>

theorem handleSend_shows_upstream_payload:
  "last_text (handleSend failing_fetch (js ''price of TCS'') 1 2 empty_chat) =
     js ''Sorry, something went wrong while contacting the market assistant. Server error 500: Traceback (most recent call last): KeyError TCS''"
  by (simp add: last_text_def handleSend_def ask_and_reply_def marketChatbotSync_def
      failing_fetch_def server_error_def friendly_def friendly_prefix_def empty_chat_def
      bot_message_def decimal.simps js_def)

text \<open>
  C2, amended. When the API call throws, the text appended to the transcript is the fixed
  friendly sentence followed by the message of the error. For a reply that is not ok the
  error is \<open>Server error <status>\<close> with the body of the reply, so the displayed text
  includes the status code and, when the body could be read, the body.
\<close>

theorem handleSend_error_text:
  "(marketChatbotSync fetch q = Inl e \<longrightarrow>
      handleSend fetch q t_user t_bot st =
        \<lparr>msgs = msgs st @ [Some (user_message q t_user),
                            Some (bot_message (friendly_prefix @ message e) t_bot)],
         loading = False\<rparr>)
   \<and> (fetch \<lparr>path = js ''/market_chatbot/sync'', user_query = q\<rparr> = Resolved r \<and> \<not> ok r \<longrightarrow>
        marketChatbotSync fetch q = Inl (server_error r)
        \<and> str_includes (last_text (handleSend fetch q t_user t_bot st)) (decimal (status r))
        \<and> (\<forall>b. text_body r = Resolved b \<longrightarrow>
              str_includes (last_text (handleSend fetch q t_user t_bot st)) b))"
proof (intro conjI impI allI)
  assume "marketChatbotSync fetch q = Inl e"
  then show "handleSend fetch q t_user t_bot st =
        \<lparr>msgs = msgs st @ [Some (user_message q t_user),
                            Some (bot_message (friendly_prefix @ message e) t_bot)],
         loading = False\<rparr>"
    by (simp add: handleSend_def ask_and_reply_def friendly_def)
next
  assume a: "fetch \<lparr>path = js ''/market_chatbot/sync'', user_query = q\<rparr> = Resolved r \<and> \<not> ok r"
  then show m: "marketChatbotSync fetch q = Inl (server_error r)"
    by (simp add: marketChatbotSync_def)
  then have lt: "last_text (handleSend fetch q t_user t_bot st)
      = friendly_prefix @ message (server_error r)"
    by (simp add: last_text_def handleSend_def ask_and_reply_def friendly_def bot_message_def)
  obtain rest where msg: "message (server_error r) = js ''Server error '' @ decimal (status r) @ rest"
    by (simp add: server_error_def Let_def)
  have "str_includes ((friendly_prefix @ js ''Server error '') @ decimal (status r) @ rest)
          (decimal (status r))"
    by (rule str_includes_infix)
  then show "str_includes (last_text (handleSend fetch q t_user t_bot st)) (decimal (status r))"
    by (simp add: lt msg)
  fix b assume b: "text_body r = Resolved b"
  show "str_includes (last_text (handleSend fetch q t_user t_bot st)) b"
  proof (cases "b = []")
    case True
    have "str_includes ([] @ [] @ last_text (handleSend fetch q t_user t_bot st)) []"
      by (rule str_includes_infix)
    with True show ?thesis by simp
  next
    case False
    with b have "message (server_error r)
        = js ''Server error '' @ decimal (status r) @ js '': '' @ b"
      by (simp add: server_error_def)
    moreover have "str_includes
        ((friendly_prefix @ js ''Server error '' @ decimal (status r) @ js '': '') @ b @ []) b"
      by (rule str_includes_infix)
    ultimately show ?thesis by (simp add: lt)
  qed
qed

theorem handleSend_error_text_witness:
  "marketChatbotSync failing_fetch (js ''price of TCS'') =
     Inl (Error (js ''Server error 500: Traceback (most recent call last): KeyError TCS''))
   \<and> handleSend failing_fetch (js ''price of TCS'') 1 2 empty_chat =
        \<lparr>msgs = [Some (user_message (js ''price of TCS'') 1),
                  Some (bot_message (friendly_prefix
                     @ js ''Server error 500: Traceback (most recent call last): KeyError TCS'') 2)],
         loading = False\<rparr>"
  using handleSend_error_text[of failing_fetch "js ''price of TCS''"
      "Error (js ''Server error 500: Traceback (most recent call last): KeyError TCS'')"
      1 2 empty_chat]
  by (simp add: marketChatbotSync_def failing_fetch_def server_error_def empty_chat_def
      decimal.simps js_def)

lemma edited_transcript_in_range:
  assumes "index < length ms"
  shows "edited_transcript ms index newText now =
           take index ms @ [Some (spread_edit (ms ! index) newText now)]"
proof -
  have "take (index + 1) ms = take index ms @ [ms ! index]"
    using assms by (simp add: take_Suc_conv_app_nth)
  then show ?thesis using assms
    by (simp add: edited_transcript_def array_set_def Let_def nth_append list_update_append)
qed

text \<open>
  C8. An edit of the message at \<open>index\<close> leaves the first \<open>index\<close> messages as they are,
  replaces the message at \<open>index\<close> by the same message with the edited text and the new
  timestamp, and removes every later message: the transcript has \<open>index + 1\<close> messages
  when the edited query is sent. The reply is then appended to that transcript.
\<close>

theorem handleEdit_truncates_then_replaces:
  assumes "index < length (msgs st)" and "msgs st ! index = Some m"
  shows "edited_transcript (msgs st) index newText t_edit =
           take index (msgs st) @ [Some (m\<lparr>msg_text := newText, timestamp := t_edit\<rparr>)]
    \<and> length (edited_transcript (msgs st) index newText t_edit) = index + 1
    \<and> (\<forall>j < index. edited_transcript (msgs st) index newText t_edit ! j = msgs st ! j)
    \<and> edited_transcript (msgs st) index newText t_edit ! index =
         Some \<lparr>role = role m, msg_text = newText, timestamp = t_edit, streaming = streaming m\<rparr>
    \<and> msgs (handleEdit fetch index newText t_edit t_bot st) =
         edited_transcript (msgs st) index newText t_edit
         @ [Some (bot_message (case marketChatbotSync fetch newText of
                                 Inr data \<Rightarrow> botReply data | Inl e \<Rightarrow> friendly e) t_bot)]"
proof -
  have eq: "edited_transcript (msgs st) index newText t_edit =
           take index (msgs st) @ [Some (m\<lparr>msg_text := newText, timestamp := t_edit\<rparr>)]"
    using edited_transcript_in_range[OF assms(1)] assms(2) by (simp add: spread_edit_def)
  have "msgs (handleEdit fetch index newText t_edit t_bot st) =
         edited_transcript (msgs st) index newText t_edit
         @ [Some (bot_message (case marketChatbotSync fetch newText of
                                 Inr data \<Rightarrow> botReply data | Inl e \<Rightarrow> friendly e) t_bot)]"
    by (simp add: handleEdit_def ask_and_reply_def)
  moreover have "length (edited_transcript (msgs st) index newText t_edit) = index + 1"
    using assms(1) by (simp add: eq)
  moreover have "\<forall>j < index. edited_transcript (msgs st) index newText t_edit ! j = msgs st ! j"
    using assms(1) by (simp add: eq nth_append)
  moreover have "edited_transcript (msgs st) index newText t_edit ! index =
         Some \<lparr>role = role m, msg_text = newText, timestamp = t_edit, streaming = streaming m\<rparr>"
    using assms(1) by (cases m) (simp add: eq nth_append)
  ultimately show ?thesis using eq by blast
qed

theorem handleEdit_truncates_then_replaces_witness:
  "2 < length [Some (user_message (js ''a'') 1), Some (bot_message (js ''b'') 2),
               Some (user_message (js ''c'') 3), Some (bot_message (js ''d'') 4)]
   \<and> edited_transcript [Some (user_message (js ''a'') 1), Some (bot_message (js ''b'') 2),
                      Some (user_message (js ''c'') 3), Some (bot_message (js ''d'') 4)]
       2 (js ''e'') 5
     = [Some (user_message (js ''a'') 1), Some (bot_message (js ''b'') 2),
        Some (user_message (js ''e'') 5)]"
  using handleEdit_truncates_then_replaces[of 2
      "\<lparr>msgs = [Some (user_message (js ''a'') 1), Some (bot_message (js ''b'') 2),
                Some (user_message (js ''c'') 3), Some (bot_message (js ''d'') 4)],
        loading = False\<rparr>"
      "user_message (js ''c'') 3" "js ''e''" 5 blank_fetch 6]
  by (simp add: user_message_def bot_message_def)

section \<open>Properties of the streaming query\<close>

lemma split_lines_nonempty: "split_lines s \<noteq> []"
  by (induction s) (auto split: list.splits)

lemma split_lines_no_feed: "(0xA::jschar) \<notin> set s \<Longrightarrow> split_lines s = [s]"
  by (induction s) auto

lemma last_split_lines_no_feed: "(0xA::jschar) \<notin> set (last (split_lines s))"
proof (induction s)
  case Nil
  then show ?case by simp
next
  case (Cons c cs)
  obtain l ls where sl: "split_lines cs = l # ls"
    using split_lines_nonempty[of cs] by (cases "split_lines cs") auto
  show ?case using Cons sl by (cases ls) auto
qed

lemma split_lines_append:
  "split_lines (a @ b) = butlast (split_lines a) @ split_lines (last (split_lines a) @ b)"
proof (induction a)
  case Nil
  then show ?case by simp
next
  case (Cons c cs)
  obtain l ls where sl: "split_lines cs = l # ls"
    using split_lines_nonempty[of cs] by (cases "split_lines cs") auto
  show ?case
  proof (cases "c = 0xA")
    case True
    then show ?thesis using Cons sl by simp
  next
    case False
    show ?thesis
    proof (cases ls)
      case Nil
      then show ?thesis using Cons sl False by simp
    next
      case (Cons l' ls')
      then show ?thesis using Cons.IH sl False by simp
    qed
  qed
qed

lemma butlast_split_lines_append:
  "butlast (split_lines (a @ b)) =
     butlast (split_lines a) @ butlast (split_lines (last (split_lines a) @ b))"
  using split_lines_nonempty[of "last (split_lines a) @ b"]
  by (simp add: split_lines_append[of a b] butlast_append)

lemma expected_for_lines_append:
  "expected_for_lines P fwd (xs @ ys) =
     (case expected_for_lines P fwd xs of
        (evs, True) \<Rightarrow> (evs, True)
      | (evs, False) \<Rightarrow> (evs @ fst (expected_for_lines P fwd ys), snd (expected_for_lines P fwd ys)))"
  by (induction xs) (auto split: chunk.splits prod.splits bool.splits)

lemma get_prop_defined:
  "get_prop d n = Some x \<Longrightarrow> \<exists>y. get_prop d m = Some y"
  by (cases d) (auto split: option.splits)

lemma handle_line_expected:
  assumes "onComplete cb = Some fC" and "onError cb = Some fE"
    and "\<forall>tr. fC tr () = None" and "\<forall>tr x. fE tr x = None"
  shows "handle_line P cb line tr =
     (case chunk_of P line of
        ErrorChunk err \<Rightarrow> Return (tr @ [OnError (FromChunk err)])
      | DoneChunk \<Rightarrow> Return (tr @ [OnComplete])
      | ContentChunk c \<Rightarrow> Continue (tr @ (if onChunk cb \<noteq> None then [OnChunk c] else []))
      | NoChunk \<Rightarrow> Continue tr)"
proof (cases "take 6 line = js ''data: ''")
  case False
  then show ?thesis by (simp add: handle_line_def chunk_of_def)
next
  case True
  show ?thesis
  proof (cases "P (drop 6 line)")
    case None
    with True show ?thesis by (simp add: handle_line_def chunk_of_def)
  next
    case (Some d)
    show ?thesis
    proof (cases "get_prop d (js ''error'')")
      case None
      with True Some show ?thesis by (simp add: handle_line_def chunk_of_def)
    next
      case (Some err)
      then obtain dn c where p: "get_prop d (js ''done'') = Some dn" "get_prop d (js ''content'') = Some c"
        using get_prop_defined[of d "js ''error''" err] by blast
      show ?thesis
        using True \<open>P (drop 6 line) = Some d\<close> Some p assms
        by (cases "onChunk cb") (auto simp: handle_line_def chunk_of_def)
    qed
  qed
qed

lemma for_lines_expected:
  assumes "onComplete cb = Some fC" and "onError cb = Some fE"
    and "\<forall>tr. fC tr () = None" and "\<forall>tr x. fE tr x = None"
  shows "for_lines P cb ls tr =
     (case expected_for_lines P (onChunk cb \<noteq> None) ls of
        (evs, True) \<Rightarrow> Return (tr @ evs)
      | (evs, False) \<Rightarrow> Continue (tr @ evs))"
proof (induction ls arbitrary: tr)
  case Nil
  then show ?case by simp
next
  case (Cons l ls)
  show ?case
    by (cases "chunk_of P l")
       (auto simp: handle_line_expected[OF assms] Cons.IH split: prod.splits bool.splits)
qed

lemma read_loop_expected:
  assumes "onComplete cb = Some fC" and "onError cb = Some fE"
    and "\<forall>tr. fC tr () = None" and "\<forall>tr x. fE tr x = None"
  shows "(0xA::jschar) \<notin> set buf \<Longrightarrow> read_loop P cb buf vs fin tr =
     (case expected_for_lines P (onChunk cb \<noteq> None) (butlast (split_lines (buf @ concat vs))) of
        (evs, True) \<Rightarrow> (tr @ evs, Returned)
      | (evs, False) \<Rightarrow>
          (case fin of
             Exhausted \<Rightarrow> (tr @ evs @ [OnComplete], Returned)
           | ReadFailed e \<Rightarrow> (tr @ evs, Threw e)
           | NeverSettles \<Rightarrow> (tr @ evs, Hangs)))"
proof (induction vs arbitrary: buf tr)
  case Nil
  then show ?case using assms by (cases fin) (simp_all add: split_lines_no_feed)
next
  case (Cons v vs)
  let ?lines = "split_lines (buf @ v)"
  have nf: "(0xA::jschar) \<notin> set (last ?lines)" by (rule last_split_lines_no_feed)
  have split: "butlast (split_lines (buf @ v @ concat vs)) =
      butlast ?lines @ butlast (split_lines (last ?lines @ concat vs))"
    using butlast_split_lines_append[of "buf @ v" "concat vs"] by simp
  obtain evs ended where e1: "expected_for_lines P (onChunk cb \<noteq> None) (butlast ?lines) = (evs, ended)"
    by (cases "expected_for_lines P (onChunk cb \<noteq> None) (butlast ?lines)")
  show ?case
  proof (cases ended)
    case True
    with e1 show ?thesis
      by (simp add: Let_def for_lines_expected[OF assms] split expected_for_lines_append)
  next
    case False
    with e1 show ?thesis
      by (simp add: Let_def for_lines_expected[OF assms] split expected_for_lines_append
          Cons.IH[OF nf] split: prod.splits bool.splits read_end.splits)
  qed
qed

lemma expected_for_lines_shape:
  "expected_for_lines P fwd ls = (evs, ended) \<Longrightarrow>
     (if ended then \<exists>cs t. evs = map OnChunk cs @ [t] \<and> is_terminal t
      else \<exists>cs. evs = map OnChunk cs)"
proof (induction ls arbitrary: evs ended)
  case Nil
  then show ?case by simp
next
  case (Cons l ls)
  show ?case
  proof (cases "chunk_of P l")
    case (ErrorChunk err)
    with Cons.prems have "evs = map OnChunk [] @ [OnError (FromChunk err)]" "ended" by auto
    then show ?thesis by (metis is_terminal.simps(3))
  next
    case DoneChunk
    with Cons.prems have "evs = map OnChunk [] @ [OnComplete]" "ended" by auto
    then show ?thesis by (metis is_terminal.simps(2))
  next
    case (ContentChunk c)
    with Cons.prems obtain evs' where
      r: "expected_for_lines P fwd ls = (evs', ended)"
      and evs: "evs = (if fwd then [OnChunk c] else []) @ evs'"
      by (auto split: prod.splits)
    show ?thesis
    proof (cases ended)
      case True
      with Cons.IH[OF r] obtain cs t where "evs' = map OnChunk cs @ [t]" "is_terminal t" by auto
      with evs have "evs = map OnChunk ((if fwd then [c] else []) @ cs) @ [t] \<and> is_terminal t"
        by simp
      with True show ?thesis by metis
    next
      case False
      with Cons.IH[OF r] obtain cs where "evs' = map OnChunk cs" by auto
      with evs have "evs = map OnChunk ((if fwd then [c] else []) @ cs)" by simp
      with False show ?thesis by metis
    qed
  next
    case NoChunk
    with Cons.prems have "expected_for_lines P fwd ls = (evs, ended)" by simp
    from Cons.IH[OF this] show ?thesis .
  qed
qed

lemma expected_callbacks_shape:
  assumes "snd (expected_callbacks P fwd reply) \<noteq> Hangs"
  shows "\<exists>cs t. fst (expected_callbacks P fwd reply) = map OnChunk cs @ [t] \<and> is_terminal t"
proof -
  have one: "\<exists>cs t. [ev] = map OnChunk cs @ [t] \<and> is_terminal t" if "is_terminal ev" for ev
    using that by (intro exI[of _ "[]"] exI[of _ ev]) simp
  show ?thesis
  proof (cases reply)
    case (Rejected e)
    then show ?thesis using one[of "OnError (Thrown e)"] by (simp add: expected_callbacks_def)
  next
    case (Resolved r)
    show ?thesis
    proof (cases "ok r")
      case False
      with Resolved show ?thesis
        using one[of "OnError (Thrown (server_error r))"] by (simp add: expected_callbacks_def)
    next
      case True
      show ?thesis
      proof (cases "body_reader r")
        case (Inl e)
        with Resolved True show ?thesis
          using one[of "OnError (Thrown e)"] by (simp add: expected_callbacks_def)
      next
        case (Inr body)
        obtain evs ended where
          e: "expected_for_lines P fwd (butlast (split_lines (concat (reads body)))) = (evs, ended)"
          by (cases "expected_for_lines P fwd (butlast (split_lines (concat (reads body))))")
        have eq: "expected_callbacks P fwd reply = expected_for_stream P fwd body"
          using Resolved True Inr by (simp add: expected_callbacks_def)
        show ?thesis
        proof (cases ended)
          case True
          with expected_for_lines_shape[OF e] e show ?thesis
            by (simp add: eq expected_for_stream_def)
        next
          case False
          with expected_for_lines_shape[OF e] obtain cs where cs: "evs = map OnChunk cs" by auto
          from assms False e have "ending body \<noteq> NeverSettles"
            by (auto simp: eq expected_for_stream_def)
          then show ?thesis
            using False e cs
            by (cases "ending body") (auto simp: eq expected_for_stream_def)
        qed
      qed
    qed
  qed
qed

text \<open>
  C1, as stated, fails. When the caller passes no callbacks, a stream that ends invokes
  none: the guards \<open>if (onComplete)\<close> and \<open>if (onError)\<close> skip the call. When \<open>onError\<close>
  throws on a chunk that reports an error, the inner \<open>try\<close> catches the error, the
  \<open>return\<close> is not reached, and the lines that follow are processed: a chunk is forwarded
  after the terminal callback and a second terminal callback fires. When a read never
  settles, no terminal callback fires at all.
\<close>

theorem portfolioChatbotStream_without_terminal_or_with_two:
  "portfolioChatbotStream sample_parse sample_stream_fetch no_callbacks (js ''show my holdings'')
     = ([], Returned)
   \<and> portfolioChatbotStream sample_parse error_first_fetch throwing_onError (js ''show my holdings'')
     = ([OnError (FromChunk (JStr (js ''login required''))), OnChunk (JStr (js ''Hi'')), OnComplete],
        Returned)
   \<and> portfolioChatbotStream sample_parse stalled_fetch all_callbacks (js ''show my holdings'')
     = ([OnChunk (JStr (js ''Hi''))], Hangs)"
  by (simp add: portfolioChatbotStream_def stream_try_def sample_stream_fetch_def
      error_first_fetch_def stalled_fetch_def no_callbacks_def throwing_onError_def
      all_callbacks_def returns_def throws_def handle_line_def sample_parse_def js_def Let_def)

text \<open>
  C1, amended. When \<open>onComplete\<close> and \<open>onError\<close> are passed and neither throws, the
  callbacks \<open>portfolioChatbotStream\<close> invokes, and the way it ends, are the expected ones.
  A request that fails, a reply that is not ok and a body that cannot be read invoke
  \<open>onError\<close>, and the error is thrown. Otherwise the complete lines of the stream are
  taken in order: the truthy \<open>content\<close> of each parsed chunk is forwarded to \<open>onChunk\<close> (if
  it was passed) up to the first chunk whose \<open>error\<close> field is truthy, which invokes
  \<open>onError\<close>, or whose \<open>done\<close> field is truthy, which invokes \<open>onComplete\<close>; the function
  then returns and nothing more is forwarded. If no such chunk arrives, the exhausted
  stream invokes \<open>onComplete\<close>, and a read that fails invokes \<open>onError\<close> and is thrown.
  So whenever the function settles, exactly one terminal callback has fired, and it is
  the last callback; while a read never settles, only chunks have been forwarded.
\<close>

theorem portfolioChatbotStream_expected_callbacks:
  assumes "onComplete cb = Some fC" and "onError cb = Some fE"
    and "\<forall>tr. fC tr () = None" and "\<forall>tr x. fE tr x = None"
  shows "portfolioChatbotStream P fetch cb q =
           expected_callbacks P (onChunk cb \<noteq> None)
             (fetch \<lparr>path = js ''/portfolio_chatbot/stream'', user_query = q\<rparr>)
    \<and> (snd (portfolioChatbotStream P fetch cb q) \<noteq> Hangs \<longrightarrow>
         (\<exists>cs t. fst (portfolioChatbotStream P fetch cb q) = map OnChunk cs @ [t]
            \<and> is_terminal t))
    \<and> (snd (portfolioChatbotStream P fetch cb q) = Hangs \<longrightarrow>
         (\<exists>cs. fst (portfolioChatbotStream P fetch cb q) = map OnChunk cs))"
proof -
  let ?reply = "fetch \<lparr>path = js ''/portfolio_chatbot/stream'', user_query = q\<rparr>"
  have eq: "portfolioChatbotStream P fetch cb q = expected_callbacks P (onChunk cb \<noteq> None) ?reply"
  proof (cases ?reply)
    case (Rejected e)
    then show ?thesis using assms
      by (simp add: portfolioChatbotStream_def stream_try_def expected_callbacks_def)
  next
    case (Resolved r)
    show ?thesis
    proof (cases "ok r")
      case False
      with Resolved show ?thesis using assms
        by (simp add: portfolioChatbotStream_def stream_try_def expected_callbacks_def)
    next
      case True
      show ?thesis
      proof (cases "body_reader r")
        case (Inl e)
        with Resolved True show ?thesis using assms
          by (simp add: portfolioChatbotStream_def stream_try_def expected_callbacks_def)
      next
        case (Inr body)
        have "stream_try P fetch cb q = read_loop P cb [] (reads body) (ending body) []"
          using Resolved True Inr by (simp add: stream_try_def)
        also have "\<dots> =
          (case expected_for_lines P (onChunk cb \<noteq> None)
                  (butlast (split_lines (concat (reads body)))) of
             (evs, True) \<Rightarrow> (evs, Returned)
           | (evs, False) \<Rightarrow>
               (case ending body of
                  Exhausted \<Rightarrow> (evs @ [OnComplete], Returned)
                | ReadFailed e \<Rightarrow> (evs, Threw e)
                | NeverSettles \<Rightarrow> (evs, Hangs)))"
          using read_loop_expected[OF assms, of "[]" P "reads body" "ending body" "[]"]
          by (simp split: prod.splits bool.splits read_end.splits)
        finally show ?thesis
          using Resolved True Inr assms
          by (auto simp: portfolioChatbotStream_def expected_callbacks_def expected_for_stream_def
              split: prod.splits bool.splits read_end.splits)
      qed
    qed
  qed
  have hang: "\<exists>cs. fst (expected_callbacks P fwd reply) = map OnChunk cs"
    if "snd (expected_callbacks P fwd reply) = Hangs" for fwd reply
  proof -
    from that obtain r body where r: "reply = Resolved r" "ok r" "body_reader r = Inr body"
      by (auto simp: expected_callbacks_def split: outcome.splits if_splits sum.splits)
    obtain evs ended where
      e: "expected_for_lines P fwd (butlast (split_lines (concat (reads body)))) = (evs, ended)"
      by (cases "expected_for_lines P fwd (butlast (split_lines (concat (reads body))))")
    from that r e have "\<not> ended" and f: "fst (expected_callbacks P fwd reply) = evs"
      by (auto simp: expected_callbacks_def expected_for_stream_def split: bool.splits read_end.splits)
    with expected_for_lines_shape[OF e] show ?thesis by auto
  qed
  show ?thesis
    using eq expected_callbacks_shape[of P "onChunk cb \<noteq> None" ?reply]
      hang[of "onChunk cb \<noteq> None" ?reply]
    by simp
qed

theorem portfolioChatbotStream_expected_callbacks_witness:
  "portfolioChatbotStream sample_parse sample_stream_fetch all_callbacks (js ''show my holdings'')
       = ([OnChunk (JStr (js ''Hi'')), OnComplete], Returned)
   \<and> expected_callbacks sample_parse True
         (sample_stream_fetch \<lparr>path = js ''/portfolio_chatbot/stream'',
                                user_query = js ''show my holdings''\<rparr>)
       = ([OnChunk (JStr (js ''Hi'')), OnComplete], Returned)"
proof -
  have c: "onComplete all_callbacks = Some returns" "onError all_callbacks = Some returns"
    by (simp_all add: all_callbacks_def)
  have n: "\<forall>tr. (returns :: event list \<Rightarrow> unit \<Rightarrow> js_error option) tr () = None"
    "\<forall>tr x. (returns :: event list \<Rightarrow> stream_error \<Rightarrow> js_error option) tr x = None"
    by (simp_all add: returns_def)
  have run: "portfolioChatbotStream sample_parse sample_stream_fetch all_callbacks
        (js ''show my holdings'') = ([OnChunk (JStr (js ''Hi'')), OnComplete], Returned)"
    by (simp add: portfolioChatbotStream_def stream_try_def sample_stream_fetch_def
      all_callbacks_def returns_def handle_line_def sample_parse_def js_def Let_def)
  show ?thesis
    using portfolioChatbotStream_expected_callbacks[OF c n, of sample_parse sample_stream_fetch
        "js ''show my holdings''"] run
    by (simp add: all_callbacks_def)
qed

section \<open>Properties of the planner\<close>

lemma extract_json_None:
  "extract_json ss response = None \<longleftrightarrow> (\<forall>s \<in> set ss. s response = None)"
  by (induction ss) (auto split: option.splits)

lemma plan_attempts_all_fail:
  "(\<forall>j. i \<le> j \<and> j \<le> i + n \<longrightarrow>
        extract_json ss (llm j (attempt_prompt prompt corr j)) = None)
   \<Longrightarrow> plan_attempts llm ss prompt corr i n =
        (None, map (attempt_prompt prompt corr) [i ..< i + n + 1])"
proof (induction n arbitrary: i)
  case 0
  then show ?case by simp
next
  case (Suc n)
  have here: "extract_json ss (llm i (attempt_prompt prompt corr i)) = None"
    using Suc.prems by simp
  have "\<forall>j. Suc i \<le> j \<and> j \<le> Suc i + n \<longrightarrow>
        extract_json ss (llm j (attempt_prompt prompt corr j)) = None"
    using Suc.prems by simp
  from Suc.IH[OF this]
  have rest: "plan_attempts llm ss prompt corr (Suc i) n =
        (None, map (attempt_prompt prompt corr) [Suc i ..< Suc i + n + 1])" .
  have "[i ..< i + Suc n + 1] = i # [Suc i ..< Suc i + n + 1]"
    by (simp add: upt_conv_Cons)
  then show ?case using here rest by simp
qed

lemma retry_prompts:
  "map (attempt_prompt prompt corr) [0 ..< Suc n] = prompt # replicate n (prompt @ corr)"
proof -
  have "map (attempt_prompt prompt corr) [Suc 0 ..< Suc n] = replicate n (prompt @ corr)"
    by (induction n) (auto simp: attempt_prompt_def replicate_append_same)
  then show ?thesis by (simp add: upt_conv_Cons attempt_prompt_def del: upt_Suc)
qed

text \<open>
  C6. If every extraction strategy fails on the answer of every attempt, the planner makes
  \<open>max_retries + 1\<close> planning calls (the first with the prompt, each of the \<open>max_retries\<close>
  retries with the corrective instruction appended) and returns the empty plan, not an
  error. The default of \<open>max_retries\<close> is 2.
\<close>

theorem plan_tools_unparseable_gives_empty_plan:
  assumes "\<forall>i \<le> max_retries. \<forall>s \<in> set strategies.
             s (llm i (attempt_prompt prompt corrective i)) = None"
  shows "plan_tools registry llm strategies corrective max_retries prompt =
           (Inr [], prompt # replicate max_retries (prompt @ corrective))
    \<and> length (snd (plan_tools registry llm strategies corrective max_retries prompt))
        = max_retries + 1
    \<and> default_max_retries = 2"
proof -
  have "\<forall>j. 0 \<le> j \<and> j \<le> 0 + max_retries \<longrightarrow>
        extract_json strategies (llm j (attempt_prompt prompt corrective j)) = None"
    using assms by (simp add: extract_json_None)
  then have "plan_attempts llm strategies prompt corrective 0 max_retries =
        (None, prompt # replicate max_retries (prompt @ corrective))"
    using plan_attempts_all_fail[of 0 max_retries strategies llm prompt corrective]
    by (simp add: retry_prompts del: upt_Suc)
  then show ?thesis by (simp add: plan_tools_def default_max_retries_def)
qed

theorem plan_tools_unparseable_gives_empty_plan_witness:
  "plan_tools sample_registry garbled_llm [whole_response_parse] '' Answer with JSON only.''
        default_max_retries ''Plan the tools.''
      = (Inr [], [''Plan the tools.'', ''Plan the tools. Answer with JSON only.'',
                  ''Plan the tools. Answer with JSON only.''])"
proof -
  have h: "\<forall>i \<le> default_max_retries. \<forall>s \<in> set [whole_response_parse].
       s (garbled_llm i (attempt_prompt ''Plan the tools.'' '' Answer with JSON only.'' i)) = None"
    by (simp add: whole_response_parse_def garbled_llm_def)
  show ?thesis
    using h plan_tools_unparseable_gives_empty_plan
      [of default_max_retries "[whole_response_parse]" garbled_llm "''Plan the tools.''"
          "'' Answer with JSON only.''" sample_registry]
    by (simp add: default_max_retries_def numeral_2_eq_2)
qed

section \<open>Properties of the conversation memory\<close>

lemma CompressIfNeeded_length:
  "length (CompressIfNeeded cfg summarize now mem) =
     (if length mem > 2 * max_turns cfg then max_turns cfg + 1 else length mem)"
  by (simp add: CompressIfNeeded_def)

lemma CompressIfNeeded_bound:
  "0 < max_turns cfg \<Longrightarrow> length (CompressIfNeeded cfg summarize now mem) \<le> 2 * max_turns cfg"
  by (simp add: CompressIfNeeded_length)

lemma record_turns_bound:
  "0 < max_turns cfg \<Longrightarrow> length mem \<le> 2 * max_turns cfg
     \<Longrightarrow> length (record_turns cfg summarize mem ts) \<le> 2 * max_turns cfg"
  by (induction ts arbitrary: mem) (simp_all add: CompressIfNeeded_bound)

text \<open>
  C5, as stated, fails: with \<open>max_turns = 2\<close>, four turns appended to the empty memory,
  with \<open>CompressIfNeeded\<close> after each, leave four turns, more than \<open>max_turns + 1\<close>;
  compression is not triggered before the length exceeds \<open>2 \<times> max_turns\<close>.
\<close>

theorem CompressIfNeeded_exceeds_max_turns_plus_one:
  "\<not> length (record_turns sample_config sample_summarize []
               [sample_turn 0, sample_turn 1, sample_turn 2, sample_turn 3])
        \<le> max_turns sample_config + 1"
  by (simp add: CompressIfNeeded_def Append_def sample_config_def)

text \<open>
  C5, amended. For \<open>max_turns\<close> of at least 1: after any \<open>CompressIfNeeded\<close> call the memory
  holds at most \<open>2 \<times> max_turns\<close> turns. The call changes nothing unless the length
  exceeds \<open>2 \<times> max_turns\<close>; when it does, the result is one summary turn, written by the
  assistant from the older turns, followed by the last \<open>max_turns\<close> turns, so its length is
  \<open>max_turns + 1\<close>. The most recent turn is never dropped. Appending turns, with a
  \<open>CompressIfNeeded\<close> call after each, keeps the length at most \<open>2 \<times> max_turns\<close>.
\<close>

theorem CompressIfNeeded_memory_bound:
  assumes "0 < max_turns cfg"
  shows "length (CompressIfNeeded cfg summarize now mem) \<le> 2 * max_turns cfg
    \<and> (length mem \<le> 2 * max_turns cfg \<longrightarrow> CompressIfNeeded cfg summarize now mem = mem)
    \<and> (2 * max_turns cfg < length mem \<longrightarrow>
          length (CompressIfNeeded cfg summarize now mem) = max_turns cfg + 1
          \<and> tl (CompressIfNeeded cfg summarize now mem) = drop (length mem - max_turns cfg) mem
          \<and> turn_role (hd (CompressIfNeeded cfg summarize now mem)) = AssistantTurn
          \<and> content (hd (CompressIfNeeded cfg summarize now mem))
               = summarize (take (length mem - max_turns cfg) mem))
    \<and> (mem \<noteq> [] \<longrightarrow> last (CompressIfNeeded cfg summarize now mem) = last mem)
    \<and> (length mem \<le> 2 * max_turns cfg \<longrightarrow>
          length (record_turns cfg summarize mem ts) \<le> 2 * max_turns cfg)"
proof (intro conjI impI)
  show "length (CompressIfNeeded cfg summarize now mem) \<le> 2 * max_turns cfg"
    using assms by (rule CompressIfNeeded_bound)
next
  assume "mem \<noteq> []"
  then show "last (CompressIfNeeded cfg summarize now mem) = last mem"
    using assms by (auto simp: CompressIfNeeded_def last_drop)
next
  assume "length mem \<le> 2 * max_turns cfg"
  then show "length (record_turns cfg summarize mem ts) \<le> 2 * max_turns cfg"
    using assms by (simp add: record_turns_bound)
qed (simp_all add: CompressIfNeeded_def)

theorem CompressIfNeeded_memory_bound_witness:
  "0 < max_turns sample_config
   \<and> CompressIfNeeded sample_config sample_summarize 9
        [sample_turn 0, sample_turn 1, sample_turn 2, sample_turn 3, sample_turn 4]
      = [\<lparr>turn_role = AssistantTurn, content = ''Earlier the user asked about TCS.'', turn_time = 9\<rparr>,
         sample_turn 3, sample_turn 4]"
  using CompressIfNeeded_memory_bound[of sample_config sample_summarize 9
      "[sample_turn 0, sample_turn 1, sample_turn 2, sample_turn 3, sample_turn 4]" "[]"]
  by (simp add: CompressIfNeeded_def sample_config_def sample_summarize_def)

section \<open>Properties of the session store\<close>

lemma persist_consistent:
  "working m = stored m \<Longrightarrow> working (persist k r m) = stored (persist k r m)"
  by (simp add: persist_def)

lemma persist_well_keyed:
  "well_keyed (stored m) \<Longrightarrow> user_id r = uid \<Longrightarrow> provider r = prov
     \<Longrightarrow> well_keyed (stored (persist (uid, prov) r m))"
  by (auto simp: persist_def well_keyed_def)

lemma well_keyed_record:
  "well_keyed store \<Longrightarrow> store (uid, prov) = Some r \<Longrightarrow> user_id r = uid \<and> provider r = prov"
  unfolding well_keyed_def by blast

lemma op_consistent:
  "working m = stored m \<Longrightarrow> working (apply_session_op op m) = stored (apply_session_op op m)"
  by (cases op)
     (auto simp: BeginLogin_def CompleteLogin_def Validate_def persist_consistent
           split: option.splits)

lemma op_well_keyed:
  assumes "working m = stored m" and "well_keyed (stored m)"
  shows "well_keyed (stored (apply_session_op op m))"
proof (cases op)
  case (DoBeginLogin uid prov now)
  show ?thesis
  proof (cases "working m (uid, prov)")
    case None
    then show ?thesis using assms(2) DoBeginLogin
      by (simp add: BeginLogin_def persist_well_keyed)
  next
    case (Some r)
    with well_keyed_record[OF assms(2), of uid prov r] assms(1)
    have "user_id r = uid \<and> provider r = prov" by simp
    then show ?thesis using assms(2) DoBeginLogin Some
      by (simp add: BeginLogin_def persist_well_keyed)
  qed
next
  case (DoCompleteLogin uid prov cred now)
  then show ?thesis using assms(2) by (simp add: CompleteLogin_def persist_well_keyed)
next
  case (DoValidate uid prov upstream_ok now)
  show ?thesis
  proof (cases "working m (uid, prov)")
    case None
    then show ?thesis using assms(2) DoValidate by (simp add: Validate_def)
  next
    case (Some r)
    with well_keyed_record[OF assms(2), of uid prov r] assms(1)
    have "user_id r = uid \<and> provider r = prov" by simp
    then show ?thesis using assms(2) DoValidate Some
      by (simp add: Validate_def persist_well_keyed)
  qed
qed

lemma op_other_key:
  "k \<noteq> op_key op \<Longrightarrow> stored (apply_session_op op m) k = stored m k"
  by (cases op)
     (auto simp: BeginLogin_def CompleteLogin_def Validate_def persist_def split: option.splits)

lemma restart_consistent: "working m = stored m \<Longrightarrow> restart m = m"
  by (simp add: restart_def start_manager_def)

lemma reached_invariant:
  "working (reached steps) = stored (reached steps) \<and> well_keyed (stored (reached steps))"
proof (induction steps rule: rev_induct)
  case Nil
  show ?case by (simp add: reached_def start_manager_def well_keyed_def)
next
  case (snoc st steps)
  have step: "reached (steps @ [st]) = take_step (reached steps) st"
    by (simp add: reached_def)
  show ?case
  proof (cases st)
    case (Mutate op)
    with step have "reached (steps @ [st]) = apply_session_op op (reached steps)" by simp
    then show ?thesis
      using snoc op_consistent[of "reached steps" op] op_well_keyed[of "reached steps" op]
      by simp
  next
    case Restart
    with step have "reached (steps @ [st]) = restart (reached steps)" by simp
    then show ?thesis using snoc by (simp add: restart_consistent)
  qed
qed

text \<open>
  C3. In every manager reached from the empty storage by operations of the state machine
  and restarts: a completed login stores the record under the pair of its \<open>user_id\<close> and
  \<open>provider\<close>, and \<open>GetActive\<close> returns its credential; an operation changes the record of
  its own pair only, so the login of another user does not overwrite a record; no two
  keys hold records of the same user and provider, so there is exactly one record per
  pair; every operation persists what it changes, so the manager after a restart is the
  same, and \<open>GetActive\<close> again returns the credential.
\<close>

theorem session_store_keyed_and_durable:
  "GetActive window uid prov now (CompleteLogin uid prov cred now (reached steps)) = Inr cred
    \<and> stored (CompleteLogin uid prov cred now (reached steps)) (uid, prov) =
        Some \<lparr>user_id = uid, provider = prov, credential = cred, created_at = now,
              last_validated_at = now, session_status = ACTIVE, metadata = []\<rparr>
    \<and> (k \<noteq> op_key op \<longrightarrow>
          stored (apply_session_op op (reached steps)) k = stored (reached steps) k)
    \<and> ((uid, prov) \<noteq> (uid', prov') \<longrightarrow>
          GetActive window uid prov now
            (CompleteLogin uid' prov' cred' now' (CompleteLogin uid prov cred now (reached steps)))
          = Inr cred)
    \<and> (stored (reached steps) k = Some r \<and> stored (reached steps) k' = Some r'
          \<and> user_id r = user_id r' \<and> provider r = provider r' \<longrightarrow> k = k')
    \<and> (stored (reached steps) k = Some r \<longrightarrow> k = (user_id r, provider r))
    \<and> restart (reached steps) = reached steps
    \<and> GetActive window uid prov now (restart (CompleteLogin uid prov cred now (reached steps)))
        = Inr cred"
proof (intro conjI impI)
  note inv = reached_invariant[of steps]
  show "GetActive window uid prov now (CompleteLogin uid prov cred now (reached steps)) = Inr cred"
    by (simp add: GetActive_def CompleteLogin_def persist_def)
  show "stored (CompleteLogin uid prov cred now (reached steps)) (uid, prov) =
        Some \<lparr>user_id = uid, provider = prov, credential = cred, created_at = now,
              last_validated_at = now, session_status = ACTIVE, metadata = []\<rparr>"
    by (simp add: CompleteLogin_def persist_def)
  show "restart (reached steps) = reached steps"
    using inv by (simp add: restart_consistent)
  have "reached (steps @ [Mutate (DoCompleteLogin uid prov cred now)])
      = CompleteLogin uid prov cred now (reached steps)"
    by (simp add: reached_def)
  then have "working (CompleteLogin uid prov cred now (reached steps))
      = stored (CompleteLogin uid prov cred now (reached steps))"
    using reached_invariant[of "steps @ [Mutate (DoCompleteLogin uid prov cred now)]"] by simp
  then have "restart (CompleteLogin uid prov cred now (reached steps))
      = CompleteLogin uid prov cred now (reached steps)"
    by (rule restart_consistent)
  then show "GetActive window uid prov now
      (restart (CompleteLogin uid prov cred now (reached steps))) = Inr cred"
    by (simp add: GetActive_def CompleteLogin_def persist_def)
next
  assume "k \<noteq> op_key op"
  then show "stored (apply_session_op op (reached steps)) k = stored (reached steps) k"
    by (rule op_other_key)
next
  assume "(uid, prov) \<noteq> (uid', prov')"
  then show "GetActive window uid prov now
            (CompleteLogin uid' prov' cred' now' (CompleteLogin uid prov cred now (reached steps)))
          = Inr cred"
    by (auto simp: GetActive_def CompleteLogin_def persist_def)
next
  assume a: "stored (reached steps) k = Some r"
  obtain u p where k: "k = (u, p)" by (cases k)
  with a well_keyed_record[of "stored (reached steps)" u p r] reached_invariant[of steps]
  show "k = (user_id r, provider r)" by simp
next
  assume a: "stored (reached steps) k = Some r \<and> stored (reached steps) k' = Some r'
          \<and> user_id r = user_id r' \<and> provider r = provider r'"
  obtain u p u' p' where k: "k = (u, p)" "k' = (u', p')" by (cases k, cases k')
  with a well_keyed_record[of "stored (reached steps)" u p r]
    well_keyed_record[of "stored (reached steps)" u' p' r'] reached_invariant[of steps]
  show "k = k'" by simp
qed

theorem session_store_keyed_and_durable_witness:
  "GetActive 300 ''demo-user'' ''kite'' 10 (reached two_logins) = Inr ''session_id=A''
   \<and> GetActive 300 ''second-user'' ''kite'' 10 (reached two_logins) = Inr ''session_id=B''
   \<and> GetActive 300 ''demo-user'' ''kite'' 10 (restart (reached two_logins)) = Inr ''session_id=A''
   \<and> GetActive 300 ''second-user'' ''kite'' 10 (restart (reached two_logins)) = Inr ''session_id=B''
   \<and> GetActive 300 ''third-user'' ''kite'' 10 (restart (reached two_logins)) = Inl AuthRequired"
  using session_store_keyed_and_durable[of 300 "''demo-user''" "''kite''" 1 "''session_id=A''"
      two_logins]
  by (simp add: reached_def two_logins_def GetActive_def CompleteLogin_def persist_def
      restart_def start_manager_def)

section \<open>Properties of the cache and the execution engine\<close>

lemma coveredI:
  assumes "\<And>t. Invoked k t \<in> set (served_log s) \<Longrightarrow> t \<le> T"
    and "\<And>t. Invoked k t \<in> set (served_log s) \<Longrightarrow>
           k \<in> in_flight s \<or> (\<exists>e. entries s k = Some e \<and> t + ttl k \<le> expires_at e)"
    and "\<And>lo. upstream_calls k lo (lo + ttl k) (served_log s) \<le> 1"
  shows "covered ttl k T s"
  using assms unfolding covered_def by blast

lemma covered_time: "covered ttl k T s \<Longrightarrow> Invoked k t \<in> set (served_log s) \<Longrightarrow> t \<le> T"
  unfolding covered_def by blast

lemma covered_entry:
  "covered ttl k T s \<Longrightarrow> Invoked k t \<in> set (served_log s) \<Longrightarrow>
     k \<in> in_flight s \<or> (\<exists>e. entries s k = Some e \<and> t + ttl k \<le> expires_at e)"
  unfolding covered_def by blast

lemma covered_window:
  "covered ttl k T s \<Longrightarrow> upstream_calls k lo (lo + ttl k) (served_log s) \<le> 1"
  unfolding covered_def by blast

lemma upstream_calls_snoc:
  "upstream_calls k lo hi (lg @ [a]) =
     upstream_calls k lo hi lg + (if invoked_in k lo hi a then 1 else 0)"
  by (simp add: upstream_calls_def)

lemma upstream_calls_none:
  assumes "\<And>t. Invoked k t \<in> set lg \<Longrightarrow> \<not> (lo \<le> t \<and> t < hi)"
  shows "upstream_calls k lo hi lg = 0"
proof -
  have "\<not> invoked_in k lo hi x" if x: "x \<in> set lg" for x
  proof (cases x)
    case (Invoked k' t)
    show ?thesis
    proof
      assume "invoked_in k lo hi x"
      with Invoked have "k' = k" and "lo \<le> t \<and> t < hi" by auto
      with x Invoked assms[of t] show False by auto
    qed
  qed simp_all
  then show ?thesis by (simp add: upstream_calls_def)
qed

lemma covered_invoke:
  assumes cov: "covered ttl k T s" and time: "T \<le> t"
    and miss: "cache_get (entries s) k t = None" and idle: "k \<notin> in_flight s"
  shows "covered ttl k t
           (s\<lparr>in_flight := insert k (in_flight s), served_log := served_log s @ [Invoked k t]\<rparr>)"
proof (rule coveredI)
  fix t' assume "Invoked k t' \<in> set (served_log (s\<lparr>in_flight := insert k (in_flight s),
      served_log := served_log s @ [Invoked k t]\<rparr>))"
  then have "Invoked k t' \<in> set (served_log s) \<or> t' = t" by auto
  then show "t' \<le> t" using covered_time[OF cov] time by fastforce
next
  fix t'
  show "k \<in> in_flight (s\<lparr>in_flight := insert k (in_flight s),
          served_log := served_log s @ [Invoked k t]\<rparr>)
      \<or> (\<exists>e. entries (s\<lparr>in_flight := insert k (in_flight s),
          served_log := served_log s @ [Invoked k t]\<rparr>) k = Some e \<and> t' + ttl k \<le> expires_at e)"
    by simp
next
  fix lo
  have old: "t' + ttl k \<le> t" if "Invoked k t' \<in> set (served_log s)" for t'
  proof -
    from covered_entry[OF cov that] idle obtain e
      where e: "entries s k = Some e" "t' + ttl k \<le> expires_at e" by auto
    with miss have "\<not> t < expires_at e" by (auto simp: cache_get_def split: if_splits)
    with e show ?thesis by simp
  qed
  have "upstream_calls k lo (lo + ttl k) (served_log s @ [Invoked k t]) \<le> 1"
  proof (cases "lo \<le> t \<and> t < lo + ttl k")
    case True
    have "upstream_calls k lo (lo + ttl k) (served_log s) = 0"
    proof (rule upstream_calls_none)
      fix t' assume "Invoked k t' \<in> set (served_log s)"
      then have "t' + ttl k \<le> t" by (rule old)
      with True show "\<not> (lo \<le> t' \<and> t' < lo + ttl k)" by simp
    qed
    then show ?thesis by (simp add: upstream_calls_snoc)
  next
    case False
    then show ?thesis using covered_window[OF cov, of lo] by (auto simp: upstream_calls_snoc)
  qed
  then show "upstream_calls k lo (lo + ttl k)
      (served_log (s\<lparr>in_flight := insert k (in_flight s),
         served_log := served_log s @ [Invoked k t]\<rparr>)) \<le> 1"
    by simp
qed

lemma covered_frame:
  assumes cov: "covered ttl k T s" and time: "T \<le> T'"
    and log: "\<And>t. Invoked k t \<in> set (served_log s') \<Longrightarrow> Invoked k t \<in> set (served_log s)"
    and calls: "\<And>lo hi. upstream_calls k lo hi (served_log s') = upstream_calls k lo hi (served_log s)"
    and ent: "entries s' k = entries s k"
    and fl: "k \<in> in_flight s \<Longrightarrow> k \<in> in_flight s'"
  shows "covered ttl k T' s'"
proof (rule coveredI)
  fix t assume "Invoked k t \<in> set (served_log s')"
  then have "Invoked k t \<in> set (served_log s)" by (rule log)
  then show "t \<le> T'" using covered_time[OF cov] time by fastforce
next
  fix t assume "Invoked k t \<in> set (served_log s')"
  then have "Invoked k t \<in> set (served_log s)" by (rule log)
  from covered_entry[OF cov this] show
    "k \<in> in_flight s' \<or> (\<exists>e. entries s' k = Some e \<and> t + ttl k \<le> expires_at e)"
    using ent fl by auto
next
  fix lo show "upstream_calls k lo (lo + ttl k) (served_log s') \<le> 1"
    using covered_window[OF cov, of lo] by (simp add: calls)
qed

lemma covered_done:
  assumes cov: "covered ttl k T s" and time: "T \<le> t"
  shows "covered ttl k t
           (s\<lparr>in_flight := in_flight s - {k}, entries := cache_put (entries s) k v (ttl k) t\<rparr>)"
proof (rule coveredI)
  fix t' assume "Invoked k t' \<in> set (served_log (s\<lparr>in_flight := in_flight s - {k},
      entries := cache_put (entries s) k v (ttl k) t\<rparr>))"
  then have "Invoked k t' \<in> set (served_log s)" by simp
  then show "t' \<le> t" using covered_time[OF cov] time by fastforce
next
  fix t' assume "Invoked k t' \<in> set (served_log (s\<lparr>in_flight := in_flight s - {k},
      entries := cache_put (entries s) k v (ttl k) t\<rparr>))"
  then have "Invoked k t' \<in> set (served_log s)" by simp
  then have "t' \<le> t" using covered_time[OF cov] time by fastforce
  then show "k \<in> in_flight (s\<lparr>in_flight := in_flight s - {k},
      entries := cache_put (entries s) k v (ttl k) t\<rparr>)
    \<or> (\<exists>e. entries (s\<lparr>in_flight := in_flight s - {k},
      entries := cache_put (entries s) k v (ttl k) t\<rparr>) k = Some e \<and> t' + ttl k \<le> expires_at e)"
    by (simp add: cache_put_def)
next
  fix lo show "upstream_calls k lo (lo + ttl k)
      (served_log (s\<lparr>in_flight := in_flight s - {k},
         entries := cache_put (entries s) k v (ttl k) t\<rparr>)) \<le> 1"
    using covered_window[OF cov, of lo] by simp
qed

lemma covered_step:
  assumes idem: "idem k" and nofail: "\<not> failed_for k ev" and cov: "covered ttl k T s"
    and time: "T \<le> event_time ev"
  shows "covered ttl k (event_time ev) (engine_step ttl idem s ev)"
proof (cases ev)
  case (Call k' t)
  show ?thesis
  proof (cases "k' = k \<and> cache_get (entries s) k t = None \<and> k \<notin> in_flight s")
    case True
    then have "engine_step ttl idem s ev =
        s\<lparr>in_flight := insert k (in_flight s), served_log := served_log s @ [Invoked k t]\<rparr>"
      using Call idem by simp
    moreover have "covered ttl k t
        (s\<lparr>in_flight := insert k (in_flight s), served_log := served_log s @ [Invoked k t]\<rparr>)"
      using cov time True Call by (intro covered_invoke) auto
    ultimately show ?thesis using Call by simp
  next
    case False
    show ?thesis
    proof (rule covered_frame[OF cov time])
      fix t' assume "Invoked k t' \<in> set (served_log (engine_step ttl idem s ev))"
      then show "Invoked k t' \<in> set (served_log s)"
        using Call idem False by (auto split: option.splits if_splits)
    next
      fix lo hi
      show "upstream_calls k lo hi (served_log (engine_step ttl idem s ev))
          = upstream_calls k lo hi (served_log s)"
        using Call idem False by (auto simp: upstream_calls_snoc split: option.splits)
    next
      show "entries (engine_step ttl idem s ev) k = entries s k"
        using Call by (auto split: option.splits)
    next
      assume "k \<in> in_flight s"
      then show "k \<in> in_flight (engine_step ttl idem s ev)"
        using Call by (auto split: option.splits)
    qed
  qed
next
  case (Done k' t res)
  show ?thesis
  proof (cases "k' = k \<and> k \<in> in_flight s")
    case True
    with nofail Done obtain v where res: "res = Inr v" by (cases res) auto
    with True Done idem have "engine_step ttl idem s ev =
        s\<lparr>in_flight := in_flight s - {k}, entries := cache_put (entries s) k v (ttl k) t\<rparr>"
      by simp
    moreover have "covered ttl k t
        (s\<lparr>in_flight := in_flight s - {k}, entries := cache_put (entries s) k v (ttl k) t\<rparr>)"
      using cov time Done by (intro covered_done) auto
    ultimately show ?thesis using Done by simp
  next
    case False
    show ?thesis
    proof (rule covered_frame[OF cov time])
      fix t' assume "Invoked k t' \<in> set (served_log (engine_step ttl idem s ev))"
      then show "Invoked k t' \<in> set (served_log s)"
        using Done by (auto split: sum.splits if_splits)
    next
      fix lo hi
      show "upstream_calls k lo hi (served_log (engine_step ttl idem s ev))
          = upstream_calls k lo hi (served_log s)"
        using Done by (auto split: sum.splits)
    next
      show "entries (engine_step ttl idem s ev) k = entries s k"
        using Done False by (auto simp: cache_put_def split: sum.splits)
    next
      assume "k \<in> in_flight s"
      then show "k \<in> in_flight (engine_step ttl idem s ev)"
        using Done False by (auto split: sum.splits)
    qed
  qed
qed

lemma covered_run:
  assumes idem: "idem k"
  shows "covered ttl k T s \<Longrightarrow> sorted (map event_time es) \<Longrightarrow> \<forall>ev \<in> set es. T \<le> event_time ev
     \<Longrightarrow> \<not> list_ex (failed_for k) es
     \<Longrightarrow> \<exists>T'. covered ttl k T' (engine_run ttl idem s es)"
proof (induction es arbitrary: s T)
  case Nil
  then show ?case by auto
next
  case (Cons ev es)
  have nf: "\<not> failed_for k ev" and le: "T \<le> event_time ev" using Cons.prems by auto
  have "covered ttl k (event_time ev) (engine_step ttl idem s ev)"
    using idem nf Cons.prems(1) le by (rule covered_step)
  moreover have "sorted (map event_time es)" "\<forall>e \<in> set es. event_time ev \<le> event_time e"
    "\<not> list_ex (failed_for k) es"
    using Cons.prems by auto
  ultimately show ?case using Cons.IH by simp
qed

lemma covered_new: "covered ttl k 0 new_engine"
  by (simp add: covered_def new_engine_def upstream_calls_def)

text \<open>
  C4, as stated, fails: when the first upstream invocation times out, nothing is cached,
  and an identical call one second later invokes the upstream tool again: two invocations
  within one TTL of 60 seconds.
\<close>

theorem engine_reinvokes_after_failure:
  "upstream_calls ''TCS'' 0 (0 + sample_ttl ''TCS'')
     (served_log (engine_run sample_ttl sample_idem new_engine failing_trace)) = 2"
  by (simp add: failing_trace_def new_engine_def sample_idem_def sample_ttl_def cache_get_def
      upstream_calls_def)

text \<open>
  C4, amended. For the key \<open>k\<close> of an idempotent call. In a sequence of events in time
  order, from a new engine, in which no upstream invocation for \<open>k\<close> fails, any window of
  one TTL holds at most one upstream invocation for \<open>k\<close>. A call that finds a valid entry
  is served from the cache. A call that finds no valid entry but an invocation in flight
  is coalesced onto it. A call that finds no valid entry (none at all, or an expired one)
  and nothing in flight invokes the upstream tool. A successful completion at time \<open>c\<close>
  makes the value available until \<open>c + ttl k\<close>. A failed or timed-out completion does not
  populate the cache, so the next identical call that finds no valid entry invokes the
  upstream tool again, also within the TTL.
\<close>

theorem engine_invokes_upstream_once_per_ttl:
  assumes "idem k"
  shows "(sorted (map event_time es) \<and> \<not> list_ex (failed_for k) es \<longrightarrow>
          upstream_calls k lo (lo + ttl k) (served_log (engine_run ttl idem new_engine es)) \<le> 1)
    \<and> (cache_get (entries s) k t = Some v \<longrightarrow>
          engine_step ttl idem s (Call k t) = s\<lparr>served_log := served_log s @ [ServedFromCache k t v]\<rparr>)
    \<and> (cache_get (entries s) k t = None \<and> k \<in> in_flight s \<longrightarrow>
          engine_step ttl idem s (Call k t) = s\<lparr>served_log := served_log s @ [Coalesced k t]\<rparr>)
    \<and> (cache_get (entries s) k t = None \<and> k \<notin> in_flight s \<longrightarrow>
          engine_step ttl idem s (Call k t) =
            s\<lparr>in_flight := insert k (in_flight s), served_log := served_log s @ [Invoked k t]\<rparr>)
    \<and> (cache_get (entries s) k t = None \<longleftrightarrow>
          entries s k = None \<or> (\<exists>e. entries s k = Some e \<and> expires_at e \<le> t))
    \<and> (k \<in> in_flight s \<longrightarrow>
          cache_get (entries (engine_step ttl idem s (Done k c (Inr v)))) k t =
            (if t < c + ttl k then Some v else None))
    \<and> (k \<in> in_flight s \<longrightarrow>
          engine_step ttl idem s (Done k c (Inl err)) = s\<lparr>in_flight := in_flight s - {k}\<rparr>)
    \<and> (k \<in> in_flight s \<and> cache_get (entries s) k t = None \<longrightarrow>
          served_log (engine_step ttl idem (engine_step ttl idem s (Done k c (Inl err))) (Call k t))
            = served_log s @ [Invoked k t])"
proof (intro conjI impI)
  assume a: "sorted (map event_time es) \<and> \<not> list_ex (failed_for k) es"
  have "\<forall>ev \<in> set es. 0 \<le> event_time ev" by simp
  then have "\<exists>T'. covered ttl k T' (engine_run ttl idem new_engine es)"
    using covered_run[of idem k ttl 0 new_engine es] assms a covered_new[of ttl k] by blast
  then obtain T' where "covered ttl k T' (engine_run ttl idem new_engine es)" ..
  then show "upstream_calls k lo (lo + ttl k) (served_log (engine_run ttl idem new_engine es)) \<le> 1"
    by (rule covered_window)
next
  assume "cache_get (entries s) k t = Some v"
  then show "engine_step ttl idem s (Call k t) = s\<lparr>served_log := served_log s @ [ServedFromCache k t v]\<rparr>"
    using assms by simp
next
  assume "cache_get (entries s) k t = None \<and> k \<in> in_flight s"
  then show "engine_step ttl idem s (Call k t) = s\<lparr>served_log := served_log s @ [Coalesced k t]\<rparr>"
    using assms by simp
next
  assume "cache_get (entries s) k t = None \<and> k \<notin> in_flight s"
  then show "engine_step ttl idem s (Call k t) =
            s\<lparr>in_flight := insert k (in_flight s), served_log := served_log s @ [Invoked k t]\<rparr>"
    using assms by simp
next
  show "cache_get (entries s) k t = None \<longleftrightarrow>
          entries s k = None \<or> (\<exists>e. entries s k = Some e \<and> expires_at e \<le> t)"
    by (auto simp: cache_get_def split: option.splits if_splits)
next
  assume "k \<in> in_flight s"
  then show "cache_get (entries (engine_step ttl idem s (Done k c (Inr v)))) k t =
            (if t < c + ttl k then Some v else None)"
    using assms by (simp add: cache_get_def cache_put_def)
next
  assume "k \<in> in_flight s"
  then show "engine_step ttl idem s (Done k c (Inl err)) = s\<lparr>in_flight := in_flight s - {k}\<rparr>"
    using assms by simp
next
  assume "k \<in> in_flight s \<and> cache_get (entries s) k t = None"
  then show "served_log (engine_step ttl idem (engine_step ttl idem s (Done k c (Inl err))) (Call k t))
            = served_log s @ [Invoked k t]"
    using assms by simp
qed

theorem engine_invokes_upstream_once_per_ttl_witness:
  "sample_idem ''TCS'' \<and> sorted (map event_time sample_trace)
   \<and> \<not> list_ex (failed_for ''TCS'') sample_trace
   \<and> served_log (engine_run sample_ttl sample_idem new_engine sample_trace) =
       [Invoked ''TCS'' 0, Coalesced ''TCS'' 1, ServedFromCache ''TCS'' 30 ''3500'',
        Invoked ''TCS'' 62, Coalesced ''TCS'' 63]
   \<and> upstream_calls ''TCS'' 0 (0 + sample_ttl ''TCS'')
        (served_log (engine_run sample_ttl sample_idem new_engine sample_trace)) = 1
   \<and> served_log (engine_run sample_ttl sample_idem new_engine failing_trace) =
       [Invoked ''TCS'' 0, Invoked ''TCS'' 2]"
  using engine_invokes_upstream_once_per_ttl[of sample_idem "''TCS''" sample_trace 0 sample_ttl]
  by (simp add: sample_trace_def failing_trace_def new_engine_def sample_idem_def sample_ttl_def
      cache_get_def cache_put_def upstream_calls_def)

end
